theory Spec2Isabelle
  imports Main "HOL-Library.Word"
begin

section \<open>Shared types\<close>

type_synonym byte = "8 word"

text \<open>
  \<^verbatim>\<open>status_t\<close>: the status codes the three source files name, and \<open>kStatus_Other\<close> for
  any other code that the external bus or link layer may hand back.
\<close>

datatype status =
    kStatus_Success
  | kStatus_Fail
  | kStatus_InvalidArgument
  | kStatus_Timeout
  | kStatus_AbortDataPhase
  | kStatus_Ping
  | kStatus_Uhk_IdleSlave
  | kStatus_Uhk_NoTransfer
  | kStatus_Other nat

text \<open>A value stored into a \<^verbatim>\<open>uint8_t\<close> variable: the C integer result reduced modulo 256.\<close>

definition u8 :: "int \<Rightarrow> nat" where
  "u8 i = nat (i mod 256)"

text \<open>\<^verbatim>\<open>memcpy(dst + off, src, n)\<close> on a buffer held as a list: \<open>src\<close> is the list of the
  \<open>n\<close> bytes copied.\<close>

definition memcpy_at :: "'a list \<Rightarrow> nat \<Rightarrow> 'a list \<Rightarrow> 'a list" where
  "memcpy_at dst off src = take off dst @ src @ drop (off + length src) dst"

section \<open>The I2C side: slaves, the bus, and the two drivers' state\<close>

record i2c_message =
  msg_length :: nat
  msg_data :: "byte list"

text \<open>
  The bus transport is external. Each call of \<^verbatim>\<open>I2cAsyncWrite\<close>,
  \<^verbatim>\<open>I2cAsyncWriteMessage\<close> or \<^verbatim>\<open>I2cAsyncReadMessage\<close> is recorded in the
  world's \<open>bus\<close> log (oldest first); the status handed back by the bus layer for the
  \<open>k\<close>-th call is \<open>busStatus k\<close>, an arbitrary function of the world.
  \<open>I2cAsyncWrite a bs n\<close> is a write of the size argument \<open>n\<close>, \<open>bs\<close> being
  the first \<open>n\<close> bytes of the buffer passed.
\<close>

datatype i2c_op =
    I2cAsyncWrite byte "byte list" nat
  | I2cAsyncWriteMessage byte i2c_message
  | I2cAsyncReadMessage byte

record uhk_slave =
  isConnected :: bool

datatype led_driver_phase =
    LedDriverPhase_SetFunctionFrame
  | LedDriverPhase_SetShutdownModeNormal
  | LedDriverPhase_SetFrame1
  | LedDriverPhase_InitLedControlRegisters
  | LedDriverPhase_InitLedValues
  | LedDriverPhase_Initialized

record led_driver_state =
  phase :: led_driver_phase
  targetLedValues :: "byte list"
  sourceLedValues :: "byte list"
  ledIndex :: nat
  i2cAddress :: byte
  setupLedControlRegistersCommand :: "byte list"

datatype uhk_module_phase =
    UhkModulePhase_RequestModuleFeatures
  | UhkModulePhase_ReceiveModuleFeatures
  | UhkModulePhase_ProcessModuleFeatures
  | UhkModulePhase_RequestKeyStates
  | UhkModulePhase_ReceiveKeystates
  | UhkModulePhase_ProcessKeystates
  | UhkModulePhase_SetTestLed
  | UhkModulePhase_SetLedPwmBrightness

record uhk_module_vars =
  isTestLedOn :: bool
  ledPwmBrightness :: byte

record uhk_module_features =
  keyCount :: nat

record uhk_module_i2c_addresses =
  tbl_firmwareI2cAddress :: byte
  tbl_bootloaderI2cAddress :: byte

record uhk_module_state =
  mphase :: uhk_module_phase
  targetVars :: uhk_module_vars
  features :: uhk_module_features
  rxMessage :: i2c_message
  firmwareI2cAddress :: byte
  bootloaderI2cAddress :: byte

text \<open>
  The constants, enumerators, tables and helper functions that the drivers use and whose
  declarations are in headers outside the three source files. They are parameters of
  every operation below.
\<close>

record fw_consts =
  LED_DRIVER_LED_COUNT :: nat
  PMW_REGISTER_UPDATE_CHUNK_SIZE :: nat
  PWM_REGISTER_BUFFER_LENGTH :: nat
  LED_CONTROL_REGISTERS_COMMAND_LENGTH :: nat
  FRAME_REGISTER_PWM_FIRST :: nat
  LED_DRIVER_REGISTER_FRAME :: byte
  LED_DRIVER_FRAME_FUNCTION :: byte
  LED_DRIVER_REGISTER_SHUTDOWN :: byte
  SHUTDOWN_MODE_NORMAL :: byte
  LED_DRIVER_FRAME_1 :: byte
  LED_DRIVER_MAX_COUNT :: nat
  LedDriverId_Left :: nat
  SlaveId_LeftKeyboardHalf :: nat
  SlaveId_LeftLedDriver :: nat
  MAX_PWM_BRIGHTNESS :: byte
  SlaveCommand_RequestProperty :: byte
  SlaveProperty_Features :: byte
  SlaveCommand_RequestKeyStates :: byte
  moduleIdsToI2cAddresses :: "nat \<Rightarrow> uhk_module_i2c_addresses"
  CRC16_IsMessageValid :: "i2c_message \<Rightarrow> bool"
  features_of_bytes :: "byte list \<Rightarrow> uhk_module_features"

text \<open>The two slave commands that \<^verbatim>\<open>slave_command_t\<close> of the shared header does
  declare: the enumerators 1 and 2.\<close>

definition SlaveCommand_SetTestLed :: byte where
  "SlaveCommand_SetTestLed = 1"

definition SlaveCommand_SetLedPwmBrightness :: byte where
  "SlaveCommand_SetLedPwmBrightness = 2"

text \<open>
  The global variables of the two drivers and of the scheduler's slave table. Arrays
  indexed by a driver or slave id are functions of the id, so the aliasing between the
  entries is the one of the C arrays.
\<close>

record world =
  Slaves :: "nat \<Rightarrow> uhk_slave"
  LedDriverStates :: "nat \<Rightarrow> led_driver_state"
  updatePwmRegistersBuffer :: "byte list"
  UhkModuleVars :: "nat \<Rightarrow> uhk_module_vars"
  uhkModuleStates :: "nat \<Rightarrow> uhk_module_state"
  txMessage :: i2c_message
  CurrentKeyStates :: "nat \<Rightarrow> bool list"
  bus :: "i2c_op list"
  busStatus :: "nat \<Rightarrow> status"

definition i2c_issue :: "i2c_op \<Rightarrow> world \<Rightarrow> status \<times> world" where
  "i2c_issue op w = (busStatus w (length (bus w)), w\<lparr>bus := bus w @ [op]\<rparr>)"

section \<open>The module driver\<close>

definition tx :: "byte \<Rightarrow> world \<Rightarrow> status \<times> world" where
  "tx i2cAddr w = i2c_issue (I2cAsyncWriteMessage i2cAddr (txMessage w)) w"

definition rx :: "byte \<Rightarrow> world \<Rightarrow> status \<times> world" where
  "rx i2cAddr w = i2c_issue (I2cAsyncReadMessage i2cAddr) w"

text \<open>
  Modelled from the spec: \<^verbatim>\<open>BoolBitsToBytes\<close> (bool_array_converter.h, not among the
  source files) unpacks exactly \<open>n\<close> bits of the bit-packed response into the first
  \<open>n\<close> entries of the destination slot, least significant bit first.
\<close>

definition BoolBitsToBytes :: "byte list \<Rightarrow> bool list \<Rightarrow> nat \<Rightarrow> bool list" where
  "BoolBitsToBytes srcBytes dst n =
     memcpy_at dst 0 (map (\<lambda>i. bit (srcBytes ! (i div 8)) (i mod 8)) [0..<n])"

definition set_module_state :: "nat \<Rightarrow> uhk_module_state \<Rightarrow> world \<Rightarrow> world" where
  "set_module_state i st w = w\<lparr>uhkModuleStates := (uhkModuleStates w)(i := st)\<rparr>"

definition set_module_phase :: "nat \<Rightarrow> uhk_module_phase \<Rightarrow> world \<Rightarrow> world" where
  "set_module_phase i p w = set_module_state i ((uhkModuleStates w i)\<lparr>mphase := p\<rparr>) w"

definition set_tx_data :: "nat \<Rightarrow> byte \<Rightarrow> world \<Rightarrow> world" where
  "set_tx_data k b w = w\<lparr>txMessage := (txMessage w)\<lparr>msg_data := (msg_data (txMessage w))[k := b]\<rparr>\<rparr>"

definition set_tx_length :: "nat \<Rightarrow> world \<Rightarrow> world" where
  "set_tx_length n w = w\<lparr>txMessage := (txMessage w)\<lparr>msg_length := n\<rparr>\<rparr>"

definition UhkModuleSlaveDriver_Init :: "fw_consts \<Rightarrow> nat \<Rightarrow> world \<Rightarrow> world" where
  "UhkModuleSlaveDriver_Init c uhkModuleDriverId w =
     (let src = (UhkModuleVars w uhkModuleDriverId)
                  \<lparr>isTestLedOn := True, ledPwmBrightness := MAX_PWM_BRIGHTNESS c\<rparr>;
          st = uhkModuleStates w uhkModuleDriverId;
          tgt = (targetVars st)\<lparr>isTestLedOn := False, ledPwmBrightness := 0\<rparr>;
          addrs = moduleIdsToI2cAddresses c uhkModuleDriverId
      in w\<lparr>UhkModuleVars := (UhkModuleVars w)(uhkModuleDriverId := src),
            uhkModuleStates := (uhkModuleStates w)(uhkModuleDriverId :=
              st\<lparr>mphase := UhkModulePhase_RequestModuleFeatures,
                  targetVars := tgt,
                  firmwareI2cAddress := tbl_firmwareI2cAddress addrs,
                  bootloaderI2cAddress := tbl_bootloaderI2cAddress addrs\<rparr>)\<rparr>)"

definition UhkModuleSlaveDriver_Update :: "fw_consts \<Rightarrow> nat \<Rightarrow> world \<Rightarrow> status \<times> world" where
  "UhkModuleSlaveDriver_Update c uhkModuleDriverId w =
     (let uhkModuleSourceVars = UhkModuleVars w uhkModuleDriverId;
          uhkModuleState = uhkModuleStates w uhkModuleDriverId;
          uhkModuleTargetVars = targetVars uhkModuleState;
          i2cAddr = firmwareI2cAddress uhkModuleState
      in case mphase uhkModuleState of
        UhkModulePhase_RequestModuleFeatures \<Rightarrow>
          (let w1 = set_tx_length 2 (set_tx_data 1 (SlaveProperty_Features c)
                      (set_tx_data 0 (SlaveCommand_RequestProperty c) w));
               (st, w2) = tx i2cAddr w1
           in (st, set_module_phase uhkModuleDriverId UhkModulePhase_ReceiveModuleFeatures w2))
      | UhkModulePhase_ReceiveModuleFeatures \<Rightarrow>
          (let (st, w1) = rx i2cAddr w
           in (st, set_module_phase uhkModuleDriverId UhkModulePhase_ProcessModuleFeatures w1))
      | UhkModulePhase_ProcessModuleFeatures \<Rightarrow>
          (let w1 = (if CRC16_IsMessageValid c (rxMessage uhkModuleState)
                     then set_module_state uhkModuleDriverId
                            (uhkModuleState\<lparr>features :=
                               features_of_bytes c (msg_data (rxMessage uhkModuleState))\<rparr>) w
                     else w)
           in (kStatus_Uhk_NoTransfer,
               set_module_phase uhkModuleDriverId UhkModulePhase_RequestKeyStates w1))
      | UhkModulePhase_RequestKeyStates \<Rightarrow>
          (let w1 = set_tx_length 1 (set_tx_data 0 (SlaveCommand_RequestKeyStates c) w);
               (st, w2) = tx i2cAddr w1
           in (st, set_module_phase uhkModuleDriverId UhkModulePhase_ReceiveKeystates w2))
      | UhkModulePhase_ReceiveKeystates \<Rightarrow>
          (let (st, w1) = rx i2cAddr w
           in (st, set_module_phase uhkModuleDriverId UhkModulePhase_ProcessKeystates w1))
      | UhkModulePhase_ProcessKeystates \<Rightarrow>
          (let w1 = (if CRC16_IsMessageValid c (rxMessage uhkModuleState)
                     then (let slotId = u8 (int uhkModuleDriverId + 1)
                           in w\<lparr>CurrentKeyStates := (CurrentKeyStates w)(slotId :=
                                  BoolBitsToBytes (msg_data (rxMessage uhkModuleState))
                                    (CurrentKeyStates w slotId)
                                    (keyCount (features uhkModuleState)))\<rparr>)
                     else w)
           in (kStatus_Uhk_NoTransfer,
               set_module_phase uhkModuleDriverId UhkModulePhase_SetTestLed w1))
      | UhkModulePhase_SetTestLed \<Rightarrow>
          (let (st, w1) =
                 (if isTestLedOn uhkModuleSourceVars = isTestLedOn uhkModuleTargetVars
                  then (kStatus_Uhk_NoTransfer, w)
                  else (let w1 = set_tx_length 2
                                   (set_tx_data 1 (if isTestLedOn uhkModuleSourceVars then 1 else 0)
                                     (set_tx_data 0 SlaveCommand_SetTestLed w));
                            (st, w2) = tx i2cAddr w1
                        in (st, set_module_state uhkModuleDriverId
                                  ((uhkModuleStates w2 uhkModuleDriverId)
                                     \<lparr>targetVars := (targetVars (uhkModuleStates w2 uhkModuleDriverId))
                                        \<lparr>isTestLedOn := isTestLedOn uhkModuleSourceVars\<rparr>\<rparr>) w2)))
           in (st, set_module_phase uhkModuleDriverId UhkModulePhase_SetLedPwmBrightness w1))
      | UhkModulePhase_SetLedPwmBrightness \<Rightarrow>
          (let (st, w1) =
                 (if ledPwmBrightness uhkModuleSourceVars = ledPwmBrightness uhkModuleTargetVars
                  then (kStatus_Uhk_NoTransfer, w)
                  else (let w1 = set_tx_length 2
                                   (set_tx_data 1 (ledPwmBrightness uhkModuleSourceVars)
                                     (set_tx_data 0 SlaveCommand_SetLedPwmBrightness w));
                            (st, w2) = tx i2cAddr w1
                        in (st, set_module_state uhkModuleDriverId
                                  ((uhkModuleStates w2 uhkModuleDriverId)
                                     \<lparr>targetVars := (targetVars (uhkModuleStates w2 uhkModuleDriverId))
                                        \<lparr>ledPwmBrightness := ledPwmBrightness uhkModuleSourceVars\<rparr>\<rparr>) w2)))
           in (st, set_module_phase uhkModuleDriverId UhkModulePhase_RequestKeyStates w1)))"

text \<open>
  \<^verbatim>\<open>UhkModuleSlaveDriver_Disconnect\<close>: the argument is compared with the slave id
  \<^verbatim>\<open>SlaveId_LeftKeyboardHalf\<close>, and the flag cleared is the one of the slave
  \<^verbatim>\<open>SlaveId_LeftLedDriver\<close>.
\<close>

definition UhkModuleSlaveDriver_Disconnect :: "fw_consts \<Rightarrow> nat \<Rightarrow> world \<Rightarrow> world" where
  "UhkModuleSlaveDriver_Disconnect c uhkModuleDriverId w =
     (if uhkModuleDriverId = SlaveId_LeftKeyboardHalf c
      then w\<lparr>Slaves := (Slaves w)(SlaveId_LeftLedDriver c :=
                (Slaves w (SlaveId_LeftLedDriver c))\<lparr>isConnected := False\<rparr>)\<rparr>
      else w)"

text \<open>
  A run of the module driver in which nothing mutates the source variables: before each
  update the bus layer may have delivered a new receive message (the completion of an
  earlier asynchronous read), given by the list of messages, one per update.
\<close>

definition deliver_rx :: "nat \<Rightarrow> i2c_message \<Rightarrow> world \<Rightarrow> world" where
  "deliver_rx i m w = set_module_state i ((uhkModuleStates w i)\<lparr>rxMessage := m\<rparr>) w"

fun module_run :: "fw_consts \<Rightarrow> nat \<Rightarrow> i2c_message list \<Rightarrow> world \<Rightarrow> world" where
  "module_run c i [] w = w"
| "module_run c i (m # ms) w =
     module_run c i ms (snd (UhkModuleSlaveDriver_Update c i (deliver_rx i m w)))"

section \<open>The LED driver\<close>

definition set_led_state :: "nat \<Rightarrow> led_driver_state \<Rightarrow> world \<Rightarrow> world" where
  "set_led_state i st w = w\<lparr>LedDriverStates := (LedDriverStates w)(i := st)\<rparr>"

definition led_write :: "byte \<Rightarrow> byte list \<Rightarrow> nat \<Rightarrow> world \<Rightarrow> world" where
  "led_write addr buf n w = snd (i2c_issue (I2cAsyncWrite addr (take n buf) n) w)"

text \<open>The \<open>n\<close> bytes read by a \<^verbatim>\<open>memcpy\<close> from \<open>arr + off\<close>. Only the bytes inside the
  array are modelled: a read past its end (which the firmware's constants exclude) stops
  at the end.\<close>

definition read_at :: "'a list \<Rightarrow> nat \<Rightarrow> nat \<Rightarrow> 'a list" where
  "read_at arr off n = take n (drop off arr)"

text \<open>
  The first loop of the \<^verbatim>\<open>Initialized\<close> phase: at most \<^verbatim>\<open>LED_DRIVER_LED_COUNT\<close>
  steps of a circular scan for an index where source and target differ. It returns the
  final \<open>count\<close> and \<open>startLedIndex\<close>. Both are \<^verbatim>\<open>uint8_t\<close>, so the loop need not
  end when the bound does not fit a byte: not returning is \<open>None\<close>.
\<close>

partial_function (option) scan_start ::
  "nat \<Rightarrow> byte list \<Rightarrow> byte list \<Rightarrow> nat \<Rightarrow> nat \<Rightarrow> (nat \<times> nat) option" where
  "scan_start n src tgt count startLedIndex =
     (if count < n
      then (if src ! startLedIndex \<noteq> tgt ! startLedIndex
            then Some (count, startLedIndex)
            else scan_start n src tgt (u8 (int count + 1))
                   (if u8 (int startLedIndex + 1) \<ge> n then 0 else u8 (int startLedIndex + 1)))
      else Some (count, startLedIndex))"

declare scan_start.simps [code]

text \<open>
  The second loop: \<open>index\<close> runs from \<open>startLedIndex\<close> to \<open>maxEndLedIndex\<close> and
  \<open>endLedIndex\<close> is the last index in between where source and target differ.
\<close>

partial_function (option) scan_end ::
  "byte list \<Rightarrow> byte list \<Rightarrow> nat \<Rightarrow> nat \<Rightarrow> nat \<Rightarrow> nat option" where
  "scan_end src tgt maxEndLedIndex index endLedIndex =
     (if index \<le> maxEndLedIndex
      then scan_end src tgt maxEndLedIndex (u8 (int index + 1))
             (if src ! index \<noteq> tgt ! index then index else endLedIndex)
      else Some endLedIndex)"

declare scan_end.simps [code]

definition LedSlaveDriver_Update :: "fw_consts \<Rightarrow> nat \<Rightarrow> world \<Rightarrow> world option" where
  "LedSlaveDriver_Update c ledDriverId w =
     (let st = LedDriverStates w ledDriverId;
          ledDriverAddress = i2cAddress st
      in case phase st of
        LedDriverPhase_SetFunctionFrame \<Rightarrow>
          (if ledDriverId = LedDriverId_Left c
                \<and> \<not> isConnected (Slaves w (SlaveId_LeftKeyboardHalf c))
           then Some w
           else Some (set_led_state ledDriverId (st\<lparr>phase := LedDriverPhase_SetShutdownModeNormal\<rparr>)
                  (led_write ledDriverAddress
                     [LED_DRIVER_REGISTER_FRAME c, LED_DRIVER_FRAME_FUNCTION c] 2 w)))
      | LedDriverPhase_SetShutdownModeNormal \<Rightarrow>
          Some (set_led_state ledDriverId (st\<lparr>phase := LedDriverPhase_SetFrame1\<rparr>)
            (led_write ledDriverAddress
               [LED_DRIVER_REGISTER_SHUTDOWN c, SHUTDOWN_MODE_NORMAL c] 2 w))
      | LedDriverPhase_SetFrame1 \<Rightarrow>
          Some (set_led_state ledDriverId (st\<lparr>phase := LedDriverPhase_InitLedControlRegisters\<rparr>)
            (led_write ledDriverAddress
               [LED_DRIVER_REGISTER_FRAME c, LED_DRIVER_FRAME_1 c] 2 w))
      | LedDriverPhase_InitLedControlRegisters \<Rightarrow>
          Some (set_led_state ledDriverId (st\<lparr>phase := LedDriverPhase_InitLedValues\<rparr>)
            (led_write ledDriverAddress (setupLedControlRegistersCommand st)
               (LED_CONTROL_REGISTERS_COMMAND_LENGTH c) w))
      | LedDriverPhase_InitLedValues \<Rightarrow>
          (let buf = memcpy_at
                       ((updatePwmRegistersBuffer w)
                          [0 := of_nat (FRAME_REGISTER_PWM_FIRST c + ledIndex st)]) 1
                       (read_at (sourceLedValues st) (ledIndex st)
                          (PMW_REGISTER_UPDATE_CHUNK_SIZE c));
               w1 = led_write ledDriverAddress buf (PWM_REGISTER_BUFFER_LENGTH c)
                      (w\<lparr>updatePwmRegistersBuffer := buf\<rparr>);
               i = u8 (int (ledIndex st) + int (PMW_REGISTER_UPDATE_CHUNK_SIZE c))
           in Some (set_led_state ledDriverId
                (if i \<ge> LED_DRIVER_LED_COUNT c
                 then st\<lparr>ledIndex := 0, phase := LedDriverPhase_Initialized\<rparr>
                 else st\<lparr>ledIndex := i\<rparr>) w1))
      | LedDriverPhase_Initialized \<Rightarrow>
          (let src = sourceLedValues st;
               tgt = targetLedValues st;
               lastLedChunkStartIndex =
                 u8 (int (LED_DRIVER_LED_COUNT c) - int (PMW_REGISTER_UPDATE_CHUNK_SIZE c));
               startLedIndex0 = (if ledIndex st > lastLedChunkStartIndex
                                 then lastLedChunkStartIndex else ledIndex st)
           in case scan_start (LED_DRIVER_LED_COUNT c) src tgt 0 startLedIndex0 of
                None \<Rightarrow> None
              | Some (count, startLedIndex) \<Rightarrow>
                  (if \<not> count < LED_DRIVER_LED_COUNT c
                   then Some (set_led_state ledDriverId (st\<lparr>ledIndex := 0\<rparr>) w)
                   else
                    (let maxChunkSize =
                           u8 (min (int (LED_DRIVER_LED_COUNT c) - int startLedIndex)
                                   (int (PMW_REGISTER_UPDATE_CHUNK_SIZE c)));
                         maxEndLedIndex = u8 (int startLedIndex + int maxChunkSize - 1)
                     in case scan_end src tgt maxEndLedIndex startLedIndex startLedIndex of
                          None \<Rightarrow> None
                        | Some endLedIndex \<Rightarrow>
                            (let len = u8 (int endLedIndex - int startLedIndex + 1);
                                 buf = memcpy_at
                                         ((updatePwmRegistersBuffer w)
                                            [0 := of_nat (FRAME_REGISTER_PWM_FIRST c + startLedIndex)])
                                         1 (read_at src startLedIndex len);
                                 tgt1 = memcpy_at tgt startLedIndex (read_at src startLedIndex len);
                                 w1 = led_write ledDriverAddress buf (len + 1)
                                        (w\<lparr>updatePwmRegistersBuffer := buf\<rparr>);
                                 i = u8 (int (ledIndex st) + int len)
                             in Some (set_led_state ledDriverId
                                  (st\<lparr>targetLedValues := tgt1,
                                      ledIndex := (if i \<ge> LED_DRIVER_LED_COUNT c then 0 else i)\<rparr>)
                                  w1))))))"

text \<open>\<open>k\<close> successive updates of one LED driver, with nothing else touching the world in
  between; \<open>None\<close> when one of them does not return.\<close>

fun led_updates :: "fw_consts \<Rightarrow> nat \<Rightarrow> nat \<Rightarrow> world \<Rightarrow> world option" where
  "led_updates c i 0 w = Some w"
| "led_updates c i (Suc k) w =
     (case LedSlaveDriver_Update c i w of None \<Rightarrow> None | Some w1 \<Rightarrow> led_updates c i k w1)"

section \<open>The framing protocol engine\<close>

datatype packet_type = kPacketType_Command | kPacketType_Data

record framing_header =
  startByte :: byte
  packetType :: byte

text \<open>\<^verbatim>\<open>framing_data_packet_t\<close>: the two \<^verbatim>\<open>uint16_t\<close> fields are naturals below
  65536. The field \<^verbatim>\<open>crc16\<close> is \<open>crc16_field\<close>,
  apart from the CRC utility's functions.\<close>

record framing_data_packet =
  header :: framing_header
  length16 :: nat
  crc16_field :: nat

record serial_framing_packet =
  dataPacket :: framing_data_packet
  fp_data :: "byte list"

record serial_data =
  data :: "byte list"
  callbackBuffer :: "byte list"
  writeOffset :: nat
  framingPacket :: serial_framing_packet
  isAckNeeded :: bool
  isBackToBackWrite :: bool
  isAckAbortNeeded :: bool

text \<open>
  The constants of the framing layer, the bytes of the \<^verbatim>\<open>k_PingResponse\<close> record and
  the three operations of the CRC16 utility: all declared outside the source file, and
  parameters here. The CRC state is a natural number.
\<close>

record framing_consts =
  kFramingPacketStartByte :: byte
  kFramingPacketType_Ack :: byte
  kFramingPacketType_Nak :: byte
  kFramingPacketType_AckAbort :: byte
  kFramingPacketType_Command :: byte
  kFramingPacketType_Data :: byte
  kFramingPacketType_Ping :: byte
  kFramingPacketType_PingResponse :: byte
  kOutgoingPacketBufferSize :: nat
  kIncomingPacketBufferSize :: nat
  kMinPacketBufferSize :: nat
  kCallbackBufferSize :: nat
  kHostMaxStartByteReadCount :: nat
  k_PingResponse :: "byte list"
  crc16_init :: nat
  crc16_update :: "nat \<Rightarrow> byte list \<Rightarrow> nat"
  crc16_finalize :: "nat \<Rightarrow> nat"

text \<open>
  Modelled from the spec: the byte-level link I/O of the active peripheral (external; a
  blocking \<open>write(bytes) -> status\<close> and a blocking \<open>read(buffer, count, timeout) ->
  status\<close>). \<open>rxBytes\<close> are the bytes the peer sends, in order; a read of \<open>n\<close> bytes
  succeeds when \<open>n\<close> bytes are there and otherwise ends with the timeout status, the
  peer having gone silent. \<open>txWrites\<close> logs the buffer of every write call, oldest first,
  and the \<open>k\<close>-th write call returns \<open>writeStatus k\<close>. \<^verbatim>\<open>host_delay\<close> only passes
  time, which the model does not hold.
\<close>

record host =
  g_serialContext :: serial_data
  rxBytes :: "byte list"
  txWrites :: "byte list list"
  writeStatus :: "nat \<Rightarrow> status"

definition write_data :: "byte list \<Rightarrow> host \<Rightarrow> status \<times> host" where
  "write_data buffer h =
     (writeStatus h (length (txWrites h)), h\<lparr>txWrites := txWrites h @ [buffer]\<rparr>)"

definition read_data :: "nat \<Rightarrow> host \<Rightarrow> status \<times> byte list \<times> host" where
  "read_data byteCount h =
     (if byteCount \<le> length (rxBytes h)
      then (kStatus_Success, take byteCount (rxBytes h),
            h\<lparr>rxBytes := drop byteCount (rxBytes h)\<rparr>)
      else (kStatus_Timeout, [], h\<lparr>rxBytes := []\<rparr>))"

text \<open>
  Modelled from the spec: the wire format
  \<open>[startByte][packetType][length:u16][crc16:u16][payload]\<close>, the packed layout of
  \<^verbatim>\<open>framing_data_packet_t\<close> (declared outside the source file), with both 16-bit
  fields least significant byte first.
\<close>

definition u16_bytes :: "nat \<Rightarrow> byte list" where
  "u16_bytes n = [of_nat (n mod 256), of_nat (n div 256 mod 256)]"

definition u16_of_bytes :: "byte list \<Rightarrow> nat" where
  "u16_of_bytes bs = (case bs of [lo, hi] \<Rightarrow> unat lo + 256 * unat hi | _ \<Rightarrow> 0)"

definition header_bytes :: "framing_data_packet \<Rightarrow> byte list" where
  "header_bytes p = [startByte (header p), packetType (header p)] @ u16_bytes (length16 p)"

definition packet_bytes :: "framing_data_packet \<Rightarrow> byte list" where
  "packet_bytes p = header_bytes p @ u16_bytes (crc16_field p)"

text \<open>The bytes of a \<^verbatim>\<open>serial_framing_packet_t\<close> that a write of
  \<^verbatim>\<open>sizeof(framing_data_packet_t) + n\<close> bytes sends.\<close>

definition framing_packet_bytes :: "serial_framing_packet \<Rightarrow> nat \<Rightarrow> byte list" where
  "framing_packet_bytes fp n = packet_bytes (dataPacket fp) @ read_at (fp_data fp) 0 n"

definition calculate_framing_crc16 ::
  "framing_consts \<Rightarrow> framing_data_packet \<Rightarrow> byte list \<Rightarrow> nat" where
  "calculate_framing_crc16 c packet dat =
     crc16_finalize c
       (crc16_update c (crc16_update c (crc16_init c) (header_bytes packet))
          (read_at dat 0 (length16 packet))) mod 65536"

definition set_ctx :: "serial_data \<Rightarrow> host \<Rightarrow> host" where
  "set_ctx x h = h\<lparr>g_serialContext := x\<rparr>"

definition serial_packet_queue_byte :: "framing_consts \<Rightarrow> byte \<Rightarrow> host \<Rightarrow> host" where
  "serial_packet_queue_byte c b h =
     (let x = g_serialContext h
      in set_ctx (x\<lparr>callbackBuffer := (callbackBuffer x)[writeOffset x := b],
                    writeOffset := (if kCallbackBufferSize c = 0 then 0
                                    else (writeOffset x + 1) mod kCallbackBufferSize c)\<rparr>) h)"

definition serial_packet_send_sync :: "framing_consts \<Rightarrow> byte \<Rightarrow> host \<Rightarrow> status \<times> host" where
  "serial_packet_send_sync c framingPacketType h =
     write_data [kFramingPacketStartByte c, framingPacketType]
       (set_ctx ((g_serialContext h)\<lparr>isBackToBackWrite := True\<rparr>) h)"

definition send_deferred_ack :: "framing_consts \<Rightarrow> host \<Rightarrow> status \<times> host" where
  "send_deferred_ack c h =
     (if isAckNeeded (g_serialContext h)
      then serial_packet_send_sync c (kFramingPacketType_Ack c)
             (set_ctx ((g_serialContext h)\<lparr>isAckNeeded := False\<rparr>) h)
      else if isAckAbortNeeded (g_serialContext h)
      then serial_packet_send_sync c (kFramingPacketType_AckAbort c)
             (set_ctx ((g_serialContext h)\<lparr>isAckAbortNeeded := False\<rparr>) h)
      else (kStatus_Success, h))"

definition serial_packet_finalize :: "framing_consts \<Rightarrow> host \<Rightarrow> status \<times> host" where
  "serial_packet_finalize c h = send_deferred_ack c h"

text \<open>\<^verbatim>\<open>serial_packet_abort\<close>: the assertion that an ack is pending fails as \<open>None\<close>.\<close>

definition serial_packet_abort :: "host \<Rightarrow> host option" where
  "serial_packet_abort h =
     (if isAckNeeded (g_serialContext h)
      then Some (set_ctx ((g_serialContext h)\<lparr>isAckAbortNeeded := True, isAckNeeded := False\<rparr>) h)
      else None)"

text \<open>\<^verbatim>\<open>serial_send_ping_response\<close>: the statuses of its two writes are dropped.\<close>

definition serial_send_ping_response :: "framing_consts \<Rightarrow> host \<Rightarrow> status \<times> host" where
  "serial_send_ping_response c h =
     (if \<not> isAckNeeded (g_serialContext h) \<or> \<not> isBackToBackWrite (g_serialContext h)
           \<or> \<not> isAckAbortNeeded (g_serialContext h)
      then (kStatus_Ping,
            snd (write_data (k_PingResponse c)
              (snd (write_data [kFramingPacketStartByte c, kFramingPacketType_PingResponse c] h))))
      else (kStatus_Ping, h))"

text \<open>
  \<^verbatim>\<open>read_start_byte\<close>: the loop, with \<open>startByteReadCount\<close> as an argument (0 at
  entry). The header's start byte is written by each successful read.
\<close>

function read_start_byte ::
  "framing_consts \<Rightarrow> nat \<Rightarrow> framing_header \<Rightarrow> host \<Rightarrow> status \<times> framing_header \<times> host" where
  "read_start_byte c startByteReadCount hdr h =
     (case read_data 1 h of (status, bs, h1) \<Rightarrow>
        if status \<noteq> kStatus_Success then (status, hdr, h1)
        else if startByteReadCount > kHostMaxStartByteReadCount c
        then (kStatus_Timeout, hdr\<lparr>startByte := hd bs\<rparr>, h1)
        else if hd bs \<noteq> kFramingPacketStartByte c
        then read_start_byte c (startByteReadCount + 1) (hdr\<lparr>startByte := hd bs\<rparr>) h1
        else (kStatus_Success, hdr\<lparr>startByte := hd bs\<rparr>, h1))"
  by pat_completeness auto
termination
  by (relation "measure (\<lambda>(c, n, hdr, h). length (rxBytes h))")
     (auto simp: read_data_def split: if_splits)

declare read_start_byte.simps [simp del]

definition read_header ::
  "framing_consts \<Rightarrow> framing_header \<Rightarrow> host \<Rightarrow> status \<times> framing_header \<times> host" where
  "read_header c hdr h =
     (case read_start_byte c 0 hdr h of (status, hdr1, h1) \<Rightarrow>
        if status \<noteq> kStatus_Success then (status, hdr1, h1)
        else (case read_data 1 h1 of (status2, bs, h2) \<Rightarrow>
                (status2,
                 (if status2 = kStatus_Success then hdr1\<lparr>packetType := hd bs\<rparr> else hdr1), h2)))"

definition read_length ::
  "framing_data_packet \<Rightarrow> host \<Rightarrow> status \<times> framing_data_packet \<times> host" where
  "read_length packet h =
     (case read_data 2 h of (status, bs, h1) \<Rightarrow>
        (status, packet\<lparr>length16 := u16_of_bytes bs\<rparr>, h1))"

definition read_crc16 ::
  "framing_data_packet \<Rightarrow> host \<Rightarrow> status \<times> framing_data_packet \<times> host" where
  "read_crc16 packet h =
     (case read_data 2 h of (status, bs, h1) \<Rightarrow>
        (status, packet\<lparr>crc16_field := u16_of_bytes bs\<rparr>, h1))"

definition read_data_packet ::
  "framing_consts \<Rightarrow> framing_data_packet \<Rightarrow> byte list \<Rightarrow> packet_type \<Rightarrow> host
     \<Rightarrow> status \<times> framing_data_packet \<times> byte list \<times> host" where
  "read_data_packet c packet dat ptype h =
     (case read_header c (header packet) h of (status, hdr, h1) \<Rightarrow>
        (let packet1 = packet\<lparr>header := hdr\<rparr>
         in if status \<noteq> kStatus_Success then (status, packet1, dat, h1)
            else if packetType hdr = kFramingPacketType_Ping c
            then (case serial_send_ping_response c h1 of (st, h2) \<Rightarrow> (st, packet1, dat, h2))
            else
             (let expectedPacketType =
                    (if ptype \<noteq> kPacketType_Command then kFramingPacketType_Data c
                     else kFramingPacketType_Command c)
              in if packetType hdr \<noteq> expectedPacketType then (kStatus_Fail, packet1, dat, h1)
                 else
                  (case read_length packet1 h1 of (status2, packet2, h2) \<Rightarrow>
                     if status2 \<noteq> kStatus_Success then (status2, packet2, dat, h2)
                     else
                      (let packet3 = packet2\<lparr>length16 :=
                                       min (kIncomingPacketBufferSize c) (length16 packet2)\<rparr>
                       in case read_crc16 packet3 h2 of (status3, packet4, h3) \<Rightarrow>
                            if status3 \<noteq> kStatus_Success then (status3, packet4, dat, h3)
                            else if length16 packet4 > 0
                            then (case read_data (length16 packet4) h3 of (status4, bs, h4) \<Rightarrow>
                                    (status4, packet4,
                                     memcpy_at (memcpy_at dat 0 (replicate (length16 packet4) 0)) 0 bs,
                                     h4))
                            else (status3, packet4, dat, h3))))))"

text \<open>Every successful read of a header takes bytes off the incoming stream: the measure
  of the two retry loops below.\<close>

lemma read_data_rx_le:
  "read_data n h = (st, bs, h1) \<Longrightarrow> length (rxBytes h1) \<le> length (rxBytes h)"
  by (auto simp: read_data_def split: if_splits)

lemma read_data_rx_less:
  "read_data n h = (kStatus_Success, bs, h1) \<Longrightarrow> 0 < n \<Longrightarrow> length (rxBytes h1) < length (rxBytes h)"
  by (auto simp: read_data_def split: if_splits)

lemma read_start_byte_rx_less:
  "read_start_byte c n hdr h = (kStatus_Success, hdr1, h1) \<Longrightarrow> length (rxBytes h1) < length (rxBytes h)"
proof (induction c n hdr h rule: read_start_byte.induct)
  case (1 c n hdr h)
  obtain st bs h' where r: "read_data 1 h = (st, bs, h')"
    by (cases "read_data 1 h") auto
  show ?case
  proof (cases "st = kStatus_Success \<and> \<not> n > kHostMaxStartByteReadCount c \<and> hd bs \<noteq> kFramingPacketStartByte c")
    case True
    then have "read_start_byte c (n + 1) (hdr\<lparr>startByte := hd bs\<rparr>) h' = (kStatus_Success, hdr1, h1)"
      using "1.prems" r by (simp add: read_start_byte.simps[of c n hdr h])
    from "1.IH"[OF r[symmetric] refl _ _ _ this] True have "length (rxBytes h1) < length (rxBytes h')"
      by simp
    moreover have "length (rxBytes h') \<le> length (rxBytes h)"
      using r by (rule read_data_rx_le)
    ultimately show ?thesis by simp
  next
    case False
    then have "st = kStatus_Success" "h1 = h'"
      using "1.prems" r by (auto simp add: read_start_byte.simps[of c n hdr h] split: if_splits)
    then show ?thesis
      using r read_data_rx_less[of 1 h bs h'] by simp
  qed
qed

lemma read_header_rx_less:
  assumes "read_header c hdr h = (kStatus_Success, hdr1, h1)"
  shows "length (rxBytes h1) < length (rxBytes h)"
proof -
  obtain st hd' h' where a: "read_start_byte c 0 hdr h = (st, hd', h')"
    by (metis prod_cases3)
  obtain st2 bs h2 where b: "read_data 1 h' = (st2, bs, h2)"
    by (metis prod_cases3)
  have st: "st = kStatus_Success"
    using assms a by (auto simp: read_header_def split: if_splits)
  then have "length (rxBytes h') < length (rxBytes h)"
    using a read_start_byte_rx_less by blast
  moreover have "h1 = h2"
    using assms a b st by (simp add: read_header_def)
  moreover have "length (rxBytes h2) \<le> length (rxBytes h')"
    using b by (rule read_data_rx_le)
  ultimately show ?thesis
    by simp
qed

lemma write_data_rx: "rxBytes (snd (write_data b h)) = rxBytes h"
  by (simp add: write_data_def)

lemma send_sync_rx: "rxBytes (snd (serial_packet_send_sync c t h)) = rxBytes h"
  by (simp add: serial_packet_send_sync_def write_data_def set_ctx_def)

lemma read_length_rx_le:
  "read_length p h = (st, p1, h1) \<Longrightarrow> length (rxBytes h1) \<le> length (rxBytes h)"
  by (auto simp: read_length_def split: prod.splits dest: read_data_rx_le)

lemma read_crc16_rx_le:
  "read_crc16 p h = (st, p1, h1) \<Longrightarrow> length (rxBytes h1) \<le> length (rxBytes h)"
  by (auto simp: read_crc16_def split: prod.splits dest: read_data_rx_le)

lemma read_data_packet_rx_less:
  assumes "read_data_packet c packet dat ptype h = (kStatus_Success, packet1, dat1, h1)"
  shows "length (rxBytes h1) < length (rxBytes h)"
proof -
  obtain st hdr h' where rh: "read_header c (header packet) h = (st, hdr, h')"
    by (metis prod_cases3)
  obtain st2 p2 h2 where rl: "read_length (packet\<lparr>header := hdr\<rparr>) h' = (st2, p2, h2)"
    by (metis prod_cases3)
  obtain st3 p4 h3 where
    rc: "read_crc16 (p2\<lparr>length16 := min (kIncomingPacketBufferSize c) (length16 p2)\<rparr>) h2
         = (st3, p4, h3)"
    by (metis prod_cases3)
  obtain st4 bs h4 where rd: "read_data (length16 p4) h3 = (st4, bs, h4)"
    by (metis prod_cases3)
  have st: "st = kStatus_Success"
    using assms rh by (auto simp: read_data_packet_def Let_def split: if_splits)
  have noping: "packetType hdr \<noteq> kFramingPacketType_Ping c"
    using assms rh st by (auto simp: read_data_packet_def serial_send_ping_response_def split: if_splits)
  have "h1 = h3 \<or> h1 = h4"
    using assms rh rl rc rd st noping
    by (auto simp: read_data_packet_def Let_def split: if_splits)
  moreover have "length (rxBytes h') < length (rxBytes h)"
    using rh st read_header_rx_less by blast
  moreover have "length (rxBytes h2) \<le> length (rxBytes h')"
    using rl by (rule read_length_rx_le)
  moreover have "length (rxBytes h3) \<le> length (rxBytes h2)"
    using rc by (rule read_crc16_rx_le)
  moreover have "length (rxBytes h4) \<le> length (rxBytes h3)"
    using rd by (rule read_data_rx_le)
  ultimately show ?thesis
    by auto
qed

text \<open>
  \<^verbatim>\<open>wait_for_ack_packet\<close>: the do-while loop, one iteration per call. The local
  \<^verbatim>\<open>sync\<close> is passed along; on a Nak the retained framing packet is written again,
  \<^verbatim>\<open>sizeof(framing_data_packet_t)\<close> plus its length field many bytes, and the loop
  goes round.
\<close>

function wait_for_ack_packet :: "framing_consts \<Rightarrow> framing_header \<Rightarrow> host \<Rightarrow> status \<times> host" where
  "wait_for_ack_packet c sync_header h =
     (case read_header c sync_header h of (status, hdr, h1) \<Rightarrow>
        if status \<noteq> kStatus_Success then (status, h1)
        else if packetType hdr \<noteq> kFramingPacketType_Ack c
                \<and> packetType hdr \<noteq> kFramingPacketType_Nak c
                \<and> packetType hdr \<noteq> kFramingPacketType_AckAbort c
        then (kStatus_InvalidArgument, h1)
        else if packetType hdr = kFramingPacketType_AckAbort c
        then (kStatus_AbortDataPhase, h1)
        else if packetType hdr = kFramingPacketType_Nak c
        then (case write_data
                     (framing_packet_bytes (framingPacket (g_serialContext h1))
                        (length16 (dataPacket (framingPacket (g_serialContext h1))))) h1 of
                (status2, h2) \<Rightarrow>
                  if status2 \<noteq> kStatus_Success then (status2, h2)
                  else wait_for_ack_packet c hdr h2)
        else (kStatus_Success, h1))"
  by pat_completeness auto
termination
  apply (relation "measure (\<lambda>(c, hdr, h). length (rxBytes h))")
   apply simp
  apply (clarsimp simp: write_data_def)
  apply (drule sym)
  apply (drule read_header_rx_less)
  apply assumption
  done

declare wait_for_ack_packet.simps [simp del]

text \<open>
  The do-while loop of \<^verbatim>\<open>serial_packet_read\<close>, one iteration per call, with the
  local \<^verbatim>\<open>framingPacket\<close> passed along. It ends with the status of a failed
  \<^verbatim>\<open>read_data_packet\<close> or with success on a packet whose CRC matches.
\<close>

function serial_packet_read_loop ::
  "framing_consts \<Rightarrow> packet_type \<Rightarrow> framing_data_packet \<Rightarrow> host
     \<Rightarrow> status \<times> framing_data_packet \<times> host" where
  "serial_packet_read_loop c ptype framingPacket0 h =
     (let h0 = set_ctx ((g_serialContext h)\<lparr>data := replicate (kIncomingPacketBufferSize c) 0\<rparr>) h
      in case read_data_packet c framingPacket0 (data (g_serialContext h0)) ptype h0 of
           (status, framingPacket1, dat, h1) \<Rightarrow>
             (let h2 = set_ctx ((g_serialContext h1)\<lparr>data := dat\<rparr>) h1
              in if status \<noteq> kStatus_Success then (status, framingPacket1, h2)
                 else if crc16_field framingPacket1
                           \<noteq> calculate_framing_crc16 c framingPacket1 (data (g_serialContext h2))
                 then serial_packet_read_loop c ptype framingPacket1
                        (snd (serial_packet_send_sync c (kFramingPacketType_Nak c) h2))
                 else (kStatus_Success, framingPacket1, h2)))"
  by pat_completeness auto
termination
  apply (relation "measure (\<lambda>(c, t, p, h). length (rxBytes h))")
   apply simp
  apply (clarsimp simp: send_sync_rx)
  apply (drule sym)
  apply (drule read_data_packet_rx_less)
  apply (simp add: set_ctx_def)
  done

declare serial_packet_read_loop.simps [simp del]

text \<open>The locals \<^verbatim>\<open>framingPacket\<close> and \<^verbatim>\<open>sync\<close> are not initialised in the source;
  their first content is never read before it is written, and is all zero here.\<close>

definition uninitialised_header :: framing_header where
  "uninitialised_header = \<lparr>startByte = 0, packetType = 0\<rparr>"

definition uninitialised_packet :: framing_data_packet where
  "uninitialised_packet = \<lparr>header = uninitialised_header, length16 = 0, crc16_field = 0\<rparr>"

text \<open>
  \<^verbatim>\<open>serial_packet_read\<close>. The two pointer arguments are given by whether they are
  non-null. The result holds the status, what \<^verbatim>\<open>*packet\<close> was set to (the receive
  buffer) and what \<^verbatim>\<open>*packetLength\<close> was set to, \<open>None\<close> when not written.
\<close>

definition serial_packet_read ::
  "framing_consts \<Rightarrow> bool \<Rightarrow> bool \<Rightarrow> packet_type \<Rightarrow> host
     \<Rightarrow> status \<times> byte list option \<times> nat option \<times> host" where
  "serial_packet_read c packet packetLength ptype h =
     (if \<not> packet \<or> \<not> packetLength then (kStatus_InvalidArgument, None, None, h)
      else
       (case send_deferred_ack c
               (set_ctx ((g_serialContext h)\<lparr>isBackToBackWrite := False\<rparr>) h) of
          (status, h1) \<Rightarrow>
            if status \<noteq> kStatus_Success then (status, None, Some 0, h1)
            else
             (case serial_packet_read_loop c ptype uninitialised_packet h1 of
                (status2, framingPacket1, h2) \<Rightarrow>
                  if status2 \<noteq> kStatus_Success then (status2, None, Some 0, h2)
                  else
                   (let h3 = set_ctx ((g_serialContext h2)\<lparr>isAckNeeded := True\<rparr>) h2
                    in (kStatus_Success, Some (data (g_serialContext h3)),
                        Some (length16 framingPacket1), h3)))))"

text \<open>
  \<^verbatim>\<open>serial_packet_write\<close>. The payload pointer is \<open>None\<close> when null, and otherwise the
  bytes at it, of which the first \<open>byteCount\<close> are copied. The packet built is kept in
  the context for retransmission.
\<close>

definition serial_packet_write ::
  "framing_consts \<Rightarrow> byte list option \<Rightarrow> nat \<Rightarrow> packet_type \<Rightarrow> host \<Rightarrow> status \<times> host" where
  "serial_packet_write c packet byteCount ptype h =
     (case packet of
        None \<Rightarrow> (kStatus_InvalidArgument, h)
      | Some bytes \<Rightarrow>
          if byteCount > kOutgoingPacketBufferSize c then (kStatus_InvalidArgument, h)
          else
           (case send_deferred_ack c h of (status, h1) \<Rightarrow>
              if status \<noteq> kStatus_Success then (status, h1)
              else
               (let h2 = (if isBackToBackWrite (g_serialContext h1)
                          then set_ctx ((g_serialContext h1)\<lparr>isBackToBackWrite := False\<rparr>) h1
                          else h1);
                    fp = framingPacket (g_serialContext h2);
                    dp1 = (dataPacket fp)
                            \<lparr>header := \<lparr>startByte = kFramingPacketStartByte c,
                                         packetType = (if ptype \<noteq> kPacketType_Command
                                                       then kFramingPacketType_Data c
                                                       else kFramingPacketType_Command c)\<rparr>,
                             length16 := byteCount mod 65536\<rparr>;
                    d1 = (if byteCount \<noteq> 0
                          then memcpy_at (fp_data fp) 0 (read_at bytes 0 byteCount)
                          else fp_data fp);
                    dp2 = dp1\<lparr>crc16_field := calculate_framing_crc16 c dp1 d1\<rparr>;
                    fp1 = \<lparr>dataPacket = dp2, fp_data = d1\<rparr>;
                    h3 = set_ctx ((g_serialContext h2)\<lparr>framingPacket := fp1\<rparr>) h2
                in case write_data (framing_packet_bytes fp1 byteCount) h3 of (status2, h4) \<Rightarrow>
                     if status2 \<noteq> kStatus_Success then (status2, h4)
                     else wait_for_ack_packet c uninitialised_header h4)))"

definition serial_packet_get_max_packet_size :: "framing_consts \<Rightarrow> nat" where
  "serial_packet_get_max_packet_size c = kMinPacketBufferSize c"

section \<open>A concrete instance of the framing layer\<close>

text \<open>
  CRC-16/XMODEM (polynomial 0x1021, initial value 0, no reflection, no final xor), the
  framing codes 0x5a and 0xa1 to 0xa7, 32-byte packet buffers, and a ping response record
  (version 1.2.0, name P, no options) whose CRC over 5a a7 and the six bytes before it is
  the source's 0xeaaa.
\<close>

definition xmodem_step :: "nat \<Rightarrow> nat" where
  "xmodem_step x =
     (if 32768 \<le> x mod 65536 then xor ((2 * x) mod 65536) 0x1021 else (2 * x) mod 65536)"

definition xmodem_byte :: "nat \<Rightarrow> byte \<Rightarrow> nat" where
  "xmodem_byte crc b =
     xmodem_step (xmodem_step (xmodem_step (xmodem_step (xmodem_step (xmodem_step
       (xmodem_step (xmodem_step (xor crc (256 * unat b)))))))))"

definition xmodem_update :: "nat \<Rightarrow> byte list \<Rightarrow> nat" where
  "xmodem_update s bs = foldl xmodem_byte s bs"

definition example_framing :: framing_consts where
  "example_framing =
     \<lparr>kFramingPacketStartByte = 0x5A, kFramingPacketType_Ack = 0xA1,
      kFramingPacketType_Nak = 0xA2, kFramingPacketType_AckAbort = 0xA3,
      kFramingPacketType_Command = 0xA4, kFramingPacketType_Data = 0xA5,
      kFramingPacketType_Ping = 0xA6, kFramingPacketType_PingResponse = 0xA7,
      kOutgoingPacketBufferSize = 32, kIncomingPacketBufferSize = 32,
      kMinPacketBufferSize = 32, kCallbackBufferSize = 64,
      kHostMaxStartByteReadCount = 2,
      k_PingResponse = [0x00, 0x02, 0x01, 0x50, 0x00, 0x00, 0xAA, 0xEA],
      crc16_init = 0, crc16_update = xmodem_update, crc16_finalize = (\<lambda>s. s)\<rparr>"

definition example_ctx :: "bool \<Rightarrow> bool \<Rightarrow> bool \<Rightarrow> serial_data" where
  "example_ctx ack b2b abort =
     \<lparr>data = replicate 32 0, callbackBuffer = replicate 64 0, writeOffset = 0,
      framingPacket = \<lparr>dataPacket = uninitialised_packet, fp_data = replicate 32 0\<rparr>,
      isAckNeeded = ack, isBackToBackWrite = b2b, isAckAbortNeeded = abort\<rparr>"

definition example_host :: "serial_data \<Rightarrow> byte list \<Rightarrow> host" where
  "example_host x incoming =
     \<lparr>g_serialContext = x, rxBytes = incoming, txWrites = [],
      writeStatus = (\<lambda>_. kStatus_Success)\<rparr>"

section \<open>What the framing engine puts on and takes off the wire\<close>

text \<open>The sync packet that \<^verbatim>\<open>send_deferred_ack\<close> writes for a context: the Ack when one is
  needed, else the AckAbort when one is needed, else nothing.\<close>

definition deferred_sync :: "framing_consts \<Rightarrow> serial_data \<Rightarrow> byte list list" where
  "deferred_sync c x =
     (if isAckNeeded x then [[kFramingPacketStartByte c, kFramingPacketType_Ack c]]
      else if isAckAbortNeeded x then [[kFramingPacketStartByte c, kFramingPacketType_AckAbort c]]
      else [])"

text \<open>The framing packet that \<^verbatim>\<open>serial_packet_write\<close> builds over the retained one: header,
  length, payload copied into the buffer, and the CRC over them.\<close>

definition outgoing_packet ::
  "framing_consts \<Rightarrow> byte list \<Rightarrow> nat \<Rightarrow> packet_type \<Rightarrow> serial_framing_packet \<Rightarrow> serial_framing_packet" where
  "outgoing_packet c bytes byteCount ptype fp =
     (let dp1 = (dataPacket fp)
                  \<lparr>header := \<lparr>startByte = kFramingPacketStartByte c,
                               packetType = (if ptype \<noteq> kPacketType_Command
                                             then kFramingPacketType_Data c
                                             else kFramingPacketType_Command c)\<rparr>,
                   length16 := byteCount mod 65536\<rparr>;
          d1 = (if byteCount \<noteq> 0
                then memcpy_at (fp_data fp) 0 (read_at bytes 0 byteCount)
                else fp_data fp)
      in \<lparr>dataPacket = dp1\<lparr>crc16_field := calculate_framing_crc16 c dp1 d1\<rparr>, fp_data = d1\<rparr>)"

text \<open>The bytes of \<open>n\<close> Nak sync packets in a row.\<close>

definition nak_stream :: "framing_consts \<Rightarrow> nat \<Rightarrow> byte list" where
  "nak_stream c n = concat (replicate n [kFramingPacketStartByte c, kFramingPacketType_Nak c])"

text \<open>The state in which \<^verbatim>\<open>serial_packet_write\<close> enters the wait for the peer's answer,
  when its arguments are valid and the link accepts every write.\<close>

definition write_sent ::
  "framing_consts \<Rightarrow> byte list \<Rightarrow> nat \<Rightarrow> packet_type \<Rightarrow> host \<Rightarrow> host" where
  "write_sent c bytes byteCount ptype h =
     (let h1 = snd (send_deferred_ack c h);
          h2 = (if isBackToBackWrite (g_serialContext h1)
                then set_ctx ((g_serialContext h1)\<lparr>isBackToBackWrite := False\<rparr>) h1
                else h1);
          fp1 = outgoing_packet c bytes byteCount ptype (framingPacket (g_serialContext h2))
      in snd (write_data (framing_packet_bytes fp1 byteCount)
                (set_ctx ((g_serialContext h2)\<lparr>framingPacket := fp1\<rparr>) h2)))"

text \<open>A link on which the peer answers Nak, Nak, Ack and then sends one more byte; nothing is
  pending in the context.\<close>

definition nak_twice_host :: host where
  "nak_twice_host =
     example_host (example_ctx False False False) [0x5A, 0xA2, 0x5A, 0xA2, 0x5A, 0xA1, 0x07]"

text \<open>A link on which the peer answers AckAbort and then an Ack, with an Ack pending in the
  context.\<close>

definition abort_host :: host where
  "abort_host =
     example_host (example_ctx True False False) [0x5A, 0xA3, 0x5A, 0xA1, 0x07]"

text \<open>The packet type that a read or write for \<open>ptype\<close> uses: Command for
  \<^verbatim>\<open>kPacketType_Command\<close>, Data otherwise.\<close>

definition expected_type :: "framing_consts \<Rightarrow> packet_type \<Rightarrow> byte" where
  "expected_type c ptype =
     (if ptype \<noteq> kPacketType_Command then kFramingPacketType_Data c
      else kFramingPacketType_Command c)"

text \<open>The \<^verbatim>\<open>framing_data_packet_t\<close> of a packet of type \<open>t\<close> with the given CRC field and
  payload.\<close>

definition frame_packet :: "framing_consts \<Rightarrow> byte \<Rightarrow> nat \<Rightarrow> byte list \<Rightarrow> framing_data_packet" where
  "frame_packet c t crc payload =
     \<lparr>header = \<lparr>startByte = kFramingPacketStartByte c, packetType = t\<rparr>,
      length16 = length payload, crc16_field = crc\<rparr>"

text \<open>The bytes of that packet on the wire: header, length, CRC field, payload.\<close>

definition data_frame :: "framing_consts \<Rightarrow> byte \<Rightarrow> nat \<Rightarrow> byte list \<Rightarrow> byte list" where
  "data_frame c t crc payload = packet_bytes (frame_packet c t crc payload) @ payload"

text \<open>The CRC of a packet of type \<open>t\<close> with the given payload: over its header and length and
  the payload.\<close>

definition frame_crc :: "framing_consts \<Rightarrow> byte \<Rightarrow> byte list \<Rightarrow> nat" where
  "frame_crc c t payload =
     calculate_framing_crc16 c (frame_packet c t 0 payload) payload"

text \<open>The receive buffer after a payload was read into it: the payload, then zeros.\<close>

definition received :: "framing_consts \<Rightarrow> byte list \<Rightarrow> byte list" where
  "received c payload = payload @ replicate (kIncomingPacketBufferSize c - length payload) 0"

text \<open>The state in which \<^verbatim>\<open>serial_packet_read\<close> enters its loop: the back-to-back flag
  cleared and the deferred Ack or AckAbort sent.\<close>

definition read_started :: "framing_consts \<Rightarrow> host \<Rightarrow> host" where
  "read_started c h =
     snd (send_deferred_ack c (set_ctx ((g_serialContext h)\<lparr>isBackToBackWrite := False\<rparr>) h))"

text \<open>The bytes of a valid Command packet with the payload 1, 2, 3, 4.\<close>

definition command_frame :: "byte list" where
  "command_frame = data_frame example_framing 0xA4 0x5573 [1, 2, 3, 4]"

text \<open>A link on which a Ping header arrives, then that Command packet.\<close>

definition ping_host :: host where
  "ping_host = example_host (example_ctx False False False) (0x5A # 0xA6 # command_frame)"

text \<open>A link on which that Command packet arrives, then one more byte.\<close>

definition command_host :: host where
  "command_host = example_host (example_ctx False False False) (command_frame @ [0x09])"






section \<open>Concrete instances for the I2C side\<close>

text \<open>
  One choice of the parameters, used to evaluate the drivers on concrete inputs: 144 LEDs
  in chunks of 8, the left LED driver with id 1, the left keyboard half as slave 0 and the
  left LED driver as slave 4.
\<close>

definition example_consts :: fw_consts where
  "example_consts =
     \<lparr>LED_DRIVER_LED_COUNT = 144, PMW_REGISTER_UPDATE_CHUNK_SIZE = 8,
      PWM_REGISTER_BUFFER_LENGTH = 9, LED_CONTROL_REGISTERS_COMMAND_LENGTH = 19,
      FRAME_REGISTER_PWM_FIRST = 0x24, LED_DRIVER_REGISTER_FRAME = 0xFD,
      LED_DRIVER_FRAME_FUNCTION = 0x0B, LED_DRIVER_REGISTER_SHUTDOWN = 0x0A,
      SHUTDOWN_MODE_NORMAL = 1, LED_DRIVER_FRAME_1 = 0, LED_DRIVER_MAX_COUNT = 2,
      LedDriverId_Left = 1, SlaveId_LeftKeyboardHalf = 0, SlaveId_LeftLedDriver = 4,
      MAX_PWM_BRIGHTNESS = 0x64, SlaveCommand_RequestProperty = 3,
      SlaveProperty_Features = 0, SlaveCommand_RequestKeyStates = 0,
      moduleIdsToI2cAddresses =
        (\<lambda>_. \<lparr>tbl_firmwareI2cAddress = 0x08, tbl_bootloaderI2cAddress = 0x10\<rparr>),
      CRC16_IsMessageValid = (\<lambda>_. True),
      features_of_bytes = (\<lambda>bs. \<lparr>keyCount = unat (hd bs)\<rparr>)\<rparr>"

definition example_led :: "led_driver_phase \<Rightarrow> nat \<Rightarrow> byte list \<Rightarrow> led_driver_state" where
  "example_led ph i src =
     \<lparr>phase = ph, targetLedValues = replicate 144 0, sourceLedValues = src, ledIndex = i,
      i2cAddress = 0x74, setupLedControlRegistersCommand = replicate 19 0\<rparr>"

definition example_module :: "uhk_module_phase \<Rightarrow> uhk_module_state" where
  "example_module ph =
     \<lparr>mphase = ph, targetVars = \<lparr>isTestLedOn = False, ledPwmBrightness = 0\<rparr>,
      features = \<lparr>keyCount = 0\<rparr>, rxMessage = \<lparr>msg_length = 0, msg_data = []\<rparr>,
      firmwareI2cAddress = 0x08, bootloaderI2cAddress = 0x10\<rparr>"

definition example_world :: "bool \<Rightarrow> led_driver_state \<Rightarrow> uhk_module_state \<Rightarrow> world" where
  "example_world leftHalfConnected led m =
     \<lparr>Slaves = (\<lambda>_. \<lparr>isConnected = leftHalfConnected\<rparr>),
      LedDriverStates = (\<lambda>_. led),
      updatePwmRegistersBuffer = replicate 9 0,
      UhkModuleVars = (\<lambda>_. \<lparr>isTestLedOn = True, ledPwmBrightness = 0x64\<rparr>),
      uhkModuleStates = (\<lambda>_. m),
      txMessage = \<lparr>msg_length = 0, msg_data = replicate 4 0\<rparr>,
      CurrentKeyStates = (\<lambda>_. []),
      bus = [],
      busStatus = (\<lambda>_. kStatus_Success)\<rparr>"

definition module_example_world :: world where
  "module_example_world =
     example_world True (example_led LedDriverPhase_Initialized 0 (replicate 144 0))
       (example_module UhkModulePhase_SetTestLed)"

definition module_example_run :: world where
  "module_example_run =
     module_run example_consts 0 (replicate 4 \<lparr>msg_length = 1, msg_data = [0]\<rparr>)
       (snd (UhkModuleSlaveDriver_Update example_consts 0 module_example_world))"

text \<open>The left LED driver about to select the function frame, with the left keyboard
  half's own slave entry connected or not.\<close>

definition led_frame_world :: "bool \<Rightarrow> world" where
  "led_frame_world leftHalfConnected =
     example_world leftHalfConnected (example_led LedDriverPhase_SetFunctionFrame 0 (replicate 144 0))
       (example_module UhkModulePhase_SetTestLed)"

text \<open>The same driver state with the two slave entries apart: the left LED driver's entry
  is marked connected, the left keyboard half's entry (like every other one) is not.\<close>

definition led_left_half_gone_world :: world where
  "led_left_half_gone_world =
     (led_frame_world False)
       \<lparr>Slaves := (\<lambda>i. \<lparr>isConnected = (i = SlaveId_LeftLedDriver example_consts)\<rparr>)\<rparr>"

text \<open>Whether the field that the current phase of module \<open>i\<close> pushes differs between
  the source variables and the target variables.\<close>

definition gated_differs :: "nat \<Rightarrow> world \<Rightarrow> bool" where
  "gated_differs i w =
     (case mphase (uhkModuleStates w i) of
        UhkModulePhase_SetTestLed \<Rightarrow>
          isTestLedOn (UhkModuleVars w i) \<noteq> isTestLedOn (targetVars (uhkModuleStates w i))
      | UhkModulePhase_SetLedPwmBrightness \<Rightarrow>
          ledPwmBrightness (UhkModuleVars w i)
            \<noteq> ledPwmBrightness (targetVars (uhkModuleStates w i))
      | _ \<Rightarrow> False)"

section \<open>The LED driver's \<^verbatim>\<open>Initialized\<close> phase: states and the sweep invariant\<close>

text \<open>The number of bytes a bus operation passes to the bus write.\<close>

definition i2c_write_size :: "i2c_op \<Rightarrow> nat" where
  "i2c_write_size op =
     (case op of I2cAsyncWrite a bs n \<Rightarrow> n
               | I2cAsyncWriteMessage a m \<Rightarrow> msg_length m
               | I2cAsyncReadMessage a \<Rightarrow> 0)"

text \<open>
  The constants for which the \<^verbatim>\<open>uint8_t\<close> arithmetic of the \<^verbatim>\<open>Initialized\<close> phase
  does not wrap: a chunk is not empty and not longer than the table, and an index plus a
  chunk length fits a byte.
\<close>

definition led_consts_ok :: "fw_consts \<Rightarrow> bool" where
  "led_consts_ok c =
     (0 < PMW_REGISTER_UPDATE_CHUNK_SIZE c
      \<and> PMW_REGISTER_UPDATE_CHUNK_SIZE c \<le> LED_DRIVER_LED_COUNT c
      \<and> LED_DRIVER_LED_COUNT c + PMW_REGISTER_UPDATE_CHUNK_SIZE c \<le> 256)"

text \<open>A driver state in the \<^verbatim>\<open>Initialized\<close> phase whose two tables have
  \<^verbatim>\<open>LED_DRIVER_LED_COUNT\<close> entries and whose cursor \<^verbatim>\<open>ledIndex\<close> is inside the table,
  as every update leaves it.\<close>

definition led_wf :: "fw_consts \<Rightarrow> nat \<Rightarrow> world \<Rightarrow> bool" where
  "led_wf c i w =
     (phase (LedDriverStates w i) = LedDriverPhase_Initialized
      \<and> length (sourceLedValues (LedDriverStates w i)) = LED_DRIVER_LED_COUNT c
      \<and> length (targetLedValues (LedDriverStates w i)) = LED_DRIVER_LED_COUNT c
      \<and> ledIndex (LedDriverStates w i) < LED_DRIVER_LED_COUNT c)"

text \<open>
  The invariant of the sweep, for \<open>N\<close> LEDs, chunks of \<open>C\<close> and the cursor \<open>x\<close>: every
  index where source and target differ lies in a window \<open>[a, b)\<close> at or after the index
  where the next scan starts, or in a window \<open>[l, h)\<close> before it, and \<open>k\<close> updates are
  enough to cover both windows with chunks.
\<close>

definition led_cover :: "nat \<Rightarrow> nat \<Rightarrow> nat \<Rightarrow> byte list \<Rightarrow> byte list \<Rightarrow> nat \<Rightarrow> bool" where
  "led_cover N C k src tgt x =
     (\<exists>a b l h. min x (N - C) \<le> a \<and> b \<le> N \<and> h \<le> min x (N - C)
        \<and> (\<forall>j. j < N \<and> src ! j \<noteq> tgt ! j \<longrightarrow> (a \<le> j \<and> j < b) \<or> (l \<le> j \<and> j < h))
        \<and> (b - a + C - 1) div C + (h - l + C - 1) div C \<le> k)"

text \<open>
  A source table that differs from the target at index 0 and at the last index of each of
  the 18 chunks, and the driver state that an update which wrote LED 0 alone leaves (LED 0
  of the target at its former value 5, the cursor \<open>x\<close> at 1), or the same with the cursor
  elsewhere.
\<close>

definition led_stripes :: "byte list" where
  "led_stripes = map (\<lambda>i. if i = 0 \<or> i mod 8 = 7 then 1 else 0) [0..<144]"

definition led_sweep_world :: "nat \<Rightarrow> world" where
  "led_sweep_world x =
     example_world True
       ((example_led LedDriverPhase_Initialized x led_stripes)
          \<lparr>targetLedValues := 5 # replicate 143 0\<rparr>)
       (example_module UhkModulePhase_SetTestLed)"

text \<open>Whether the target table equals the source table after a run of updates, and whether
  it does at the start or after any of the first \<open>k\<close> updates of a run.\<close>

definition led_converged :: "nat \<Rightarrow> world option \<Rightarrow> bool option" where
  "led_converged i r =
     map_option (\<lambda>w. targetLedValues (LedDriverStates w i) = sourceLedValues (LedDriverStates w i)) r"

fun led_converged_within :: "fw_consts \<Rightarrow> nat \<Rightarrow> nat \<Rightarrow> world \<Rightarrow> bool option" where
  "led_converged_within c i 0 w =
     Some (targetLedValues (LedDriverStates w i) = sourceLedValues (LedDriverStates w i))"
| "led_converged_within c i (Suc k) w =
     (if targetLedValues (LedDriverStates w i) = sourceLedValues (LedDriverStates w i) then Some True
      else case LedSlaveDriver_Update c i w of
             None \<Rightarrow> None
           | Some w1 \<Rightarrow> led_converged_within c i k w1)"

section \<open>Change gating of the module driver\<close>

lemmas module_defs = UhkModuleSlaveDriver_Update_def Let_def tx_def rx_def i2c_issue_def
  set_module_state_def set_module_phase_def set_tx_data_def set_tx_length_def deliver_rx_def

lemma update_source_unchanged:
  "UhkModuleVars (snd (UhkModuleSlaveDriver_Update c i w)) = UhkModuleVars w"
  by (cases "mphase (uhkModuleStates w i)") (simp_all add: module_defs split: prod.splits)

lemma update_testled_agree:
  assumes "mphase (uhkModuleStates w i) = UhkModulePhase_SetTestLed
           \<or> isTestLedOn (targetVars (uhkModuleStates w i)) = isTestLedOn (UhkModuleVars w i)"
  shows "isTestLedOn (targetVars (uhkModuleStates (snd (UhkModuleSlaveDriver_Update c i w)) i))
         = isTestLedOn (UhkModuleVars w i)"
  using assms
  by (cases "mphase (uhkModuleStates w i)") (auto simp add: module_defs split: prod.splits)

lemma update_pwm_agree:
  assumes "mphase (uhkModuleStates w i) = UhkModulePhase_SetLedPwmBrightness
           \<or> ledPwmBrightness (targetVars (uhkModuleStates w i))
               = ledPwmBrightness (UhkModuleVars w i)"
  shows "ledPwmBrightness (targetVars (uhkModuleStates (snd (UhkModuleSlaveDriver_Update c i w)) i))
         = ledPwmBrightness (UhkModuleVars w i)"
  using assms
  by (cases "mphase (uhkModuleStates w i)") (auto simp add: module_defs split: prod.splits)

lemma run_source_unchanged:
  "UhkModuleVars (module_run c i ms w) = UhkModuleVars w"
  by (induction ms arbitrary: w)
     (simp_all add: update_source_unchanged deliver_rx_def set_module_state_def)

lemma run_testled_agree:
  "isTestLedOn (targetVars (uhkModuleStates w i)) = isTestLedOn (UhkModuleVars w i) \<Longrightarrow>
   isTestLedOn (targetVars (uhkModuleStates (module_run c i ms w) i))
     = isTestLedOn (UhkModuleVars w i)"
proof (induction ms arbitrary: w)
  case Nil
  then show ?case by simp
next
  case (Cons m ms)
  let ?d = "deliver_rx i m w"
  let ?w1 = "snd (UhkModuleSlaveDriver_Update c i ?d)"
  have d: "isTestLedOn (targetVars (uhkModuleStates ?d i)) = isTestLedOn (UhkModuleVars ?d i)"
    using Cons.prems by (simp add: deliver_rx_def set_module_state_def)
  have "isTestLedOn (targetVars (uhkModuleStates ?w1 i)) = isTestLedOn (UhkModuleVars ?d i)"
    using d by (intro update_testled_agree) simp
  moreover have same: "UhkModuleVars ?w1 = UhkModuleVars w"
    by (simp add: update_source_unchanged deliver_rx_def set_module_state_def)
  ultimately have
    "isTestLedOn (targetVars (uhkModuleStates ?w1 i)) = isTestLedOn (UhkModuleVars ?w1 i)"
    by (simp add: deliver_rx_def set_module_state_def)
  from Cons.IH[OF this] show ?case
    by (simp add: same)
qed

lemma run_pwm_agree:
  "ledPwmBrightness (targetVars (uhkModuleStates w i)) = ledPwmBrightness (UhkModuleVars w i) \<Longrightarrow>
   ledPwmBrightness (targetVars (uhkModuleStates (module_run c i ms w) i))
     = ledPwmBrightness (UhkModuleVars w i)"
proof (induction ms arbitrary: w)
  case Nil
  then show ?case by simp
next
  case (Cons m ms)
  let ?d = "deliver_rx i m w"
  let ?w1 = "snd (UhkModuleSlaveDriver_Update c i ?d)"
  have d: "ledPwmBrightness (targetVars (uhkModuleStates ?d i))
           = ledPwmBrightness (UhkModuleVars ?d i)"
    using Cons.prems by (simp add: deliver_rx_def set_module_state_def)
  have "ledPwmBrightness (targetVars (uhkModuleStates ?w1 i))
        = ledPwmBrightness (UhkModuleVars ?d i)"
    using d by (intro update_pwm_agree) simp
  moreover have same: "UhkModuleVars ?w1 = UhkModuleVars w"
    by (simp add: update_source_unchanged deliver_rx_def set_module_state_def)
  ultimately have
    "ledPwmBrightness (targetVars (uhkModuleStates ?w1 i))
     = ledPwmBrightness (UhkModuleVars ?w1 i)"
    by (simp add: deliver_rx_def set_module_state_def)
  from Cons.IH[OF this] show ?case
    by (simp add: same)
qed

lemma gated_bus:
  assumes "mphase (uhkModuleStates w i) = UhkModulePhase_SetTestLed
         \<or> mphase (uhkModuleStates w i) = UhkModulePhase_SetLedPwmBrightness"
  shows "bus (snd (UhkModuleSlaveDriver_Update c i w)) =
         bus w @ (if gated_differs i w
                  then [I2cAsyncWriteMessage (firmwareI2cAddress (uhkModuleStates w i))
                          (txMessage (snd (UhkModuleSlaveDriver_Update c i w)))]
                  else [])"
  using assms by (auto simp add: module_defs gated_differs_def split: prod.splits)

lemma no_difference_no_transfer:
  assumes "\<not> gated_differs i w"
    and "mphase (uhkModuleStates w i) = UhkModulePhase_SetTestLed
         \<or> mphase (uhkModuleStates w i) = UhkModulePhase_SetLedPwmBrightness"
  shows "bus (snd (UhkModuleSlaveDriver_Update c i w)) = bus w"
  using gated_bus[OF assms(2), of c] assms(1) by simp

text \<open>
  C8. In the \<^verbatim>\<open>SetTestLed\<close> or \<^verbatim>\<open>SetLedPwmBrightness\<close> phase an update issues
  exactly one bus transfer when the phase's source value differs from its target value and
  none when they are equal; it leaves the source variables alone; afterwards the target
  value of the phase equals the source value; and after any further run of updates of
  this module in which only the bus layer delivers receive messages, an update that is
  again in the same phase issues no transfer.
\<close>

theorem module_change_gating:
  assumes ph: "mphase (uhkModuleStates w i) = UhkModulePhase_SetTestLed
         \<or> mphase (uhkModuleStates w i) = UhkModulePhase_SetLedPwmBrightness"
  shows "bus (snd (UhkModuleSlaveDriver_Update c i w)) =
           bus w @ (if gated_differs i w
                    then [I2cAsyncWriteMessage (firmwareI2cAddress (uhkModuleStates w i))
                            (txMessage (snd (UhkModuleSlaveDriver_Update c i w)))]
                    else [])
       \<and> UhkModuleVars (snd (UhkModuleSlaveDriver_Update c i w)) = UhkModuleVars w
       \<and> (if mphase (uhkModuleStates w i) = UhkModulePhase_SetTestLed
          then isTestLedOn (targetVars (uhkModuleStates (snd (UhkModuleSlaveDriver_Update c i w)) i))
               = isTestLedOn (UhkModuleVars w i)
          else ledPwmBrightness (targetVars (uhkModuleStates (snd (UhkModuleSlaveDriver_Update c i w)) i))
               = ledPwmBrightness (UhkModuleVars w i))
       \<and> (\<forall>ms. mphase (uhkModuleStates (module_run c i ms (snd (UhkModuleSlaveDriver_Update c i w))) i)
                   = mphase (uhkModuleStates w i) \<longrightarrow>
               bus (snd (UhkModuleSlaveDriver_Update c i
                      (module_run c i ms (snd (UhkModuleSlaveDriver_Update c i w)))))
               = bus (module_run c i ms (snd (UhkModuleSlaveDriver_Update c i w))))"
proof -
  let ?w1 = "snd (UhkModuleSlaveDriver_Update c i w)"
  have src: "UhkModuleVars ?w1 = UhkModuleVars w"
    by (rule update_source_unchanged)
  have later: "bus (snd (UhkModuleSlaveDriver_Update c i (module_run c i ms ?w1)))
               = bus (module_run c i ms ?w1)"
    if same: "mphase (uhkModuleStates (module_run c i ms ?w1) i) = mphase (uhkModuleStates w i)"
    for ms
  proof -
    let ?w2 = "module_run c i ms ?w1"
    have src2: "UhkModuleVars ?w2 = UhkModuleVars w"
      by (simp add: run_source_unchanged src)
    have "\<not> gated_differs i ?w2"
    proof (cases "mphase (uhkModuleStates w i) = UhkModulePhase_SetTestLed")
      case True
      then have "isTestLedOn (targetVars (uhkModuleStates ?w1 i)) = isTestLedOn (UhkModuleVars ?w1 i)"
        using update_testled_agree[of w i c] src by simp
      from run_testled_agree[OF this, of c ms] show ?thesis
        using True same src src2 by (simp add: gated_differs_def)
    next
      case False
      with ph have p: "mphase (uhkModuleStates w i) = UhkModulePhase_SetLedPwmBrightness"
        by simp
      then have "ledPwmBrightness (targetVars (uhkModuleStates ?w1 i))
                 = ledPwmBrightness (UhkModuleVars ?w1 i)"
        using update_pwm_agree[of w i c] src by simp
      from run_pwm_agree[OF this, of c ms] show ?thesis
        using p same src src2 by (simp add: gated_differs_def)
    qed
    moreover have "mphase (uhkModuleStates ?w2 i) = UhkModulePhase_SetTestLed
         \<or> mphase (uhkModuleStates ?w2 i) = UhkModulePhase_SetLedPwmBrightness"
      using ph same by simp
    ultimately show ?thesis
      by (rule no_difference_no_transfer)
  qed
  have tgt: "if mphase (uhkModuleStates w i) = UhkModulePhase_SetTestLed
          then isTestLedOn (targetVars (uhkModuleStates ?w1 i)) = isTestLedOn (UhkModuleVars w i)
          else ledPwmBrightness (targetVars (uhkModuleStates ?w1 i))
               = ledPwmBrightness (UhkModuleVars w i)"
    using ph update_testled_agree[of w i c] update_pwm_agree[of w i c] by auto
  from gated_bus[OF ph, of c] src tgt later show ?thesis
    by blast
qed

lemmas example_defs = example_consts_def example_world_def example_led_def example_module_def

theorem module_change_gating_witness:
  "mphase (uhkModuleStates module_example_world 0) = UhkModulePhase_SetTestLed
   \<and> gated_differs 0 module_example_world
   \<and> bus (snd (UhkModuleSlaveDriver_Update example_consts 0 module_example_world))
       = [I2cAsyncWriteMessage 0x08 \<lparr>msg_length = 2, msg_data = [1, 1, 0, 0]\<rparr>]
   \<and> isTestLedOn (targetVars (uhkModuleStates
         (snd (UhkModuleSlaveDriver_Update example_consts 0 module_example_world)) 0))
   \<and> mphase (uhkModuleStates module_example_run 0) = UhkModulePhase_SetTestLed
   \<and> length (bus module_example_run) = 4
   \<and> bus (snd (UhkModuleSlaveDriver_Update example_consts 0 module_example_run))
       = bus module_example_run"
proof -
  have ph: "mphase (uhkModuleStates module_example_world 0) = UhkModulePhase_SetTestLed"
    by code_simp
  have d: "gated_differs 0 module_example_world"
    by code_simp
  have ph2: "mphase (uhkModuleStates module_example_run 0) = UhkModulePhase_SetTestLed"
    by code_simp
  have len: "length (bus module_example_run) = 4"
    by code_simp
  have msg: "txMessage (snd (UhkModuleSlaveDriver_Update example_consts 0 module_example_world))
             = \<lparr>msg_length = 2, msg_data = [1, 1, 0, 0]\<rparr>"
    by code_simp
  have adr: "firmwareI2cAddress (uhkModuleStates module_example_world 0) = 0x08"
    by code_simp
  have b0: "bus module_example_world = []"
    by code_simp
  have src: "isTestLedOn (UhkModuleVars module_example_world 0)"
    by code_simp
  from ph have h: "mphase (uhkModuleStates module_example_world 0) = UhkModulePhase_SetTestLed
         \<or> mphase (uhkModuleStates module_example_world 0) = UhkModulePhase_SetLedPwmBrightness"
    by simp
  note t = module_change_gating[OF h, of example_consts]
  from t d msg adr b0 have b: "bus (snd (UhkModuleSlaveDriver_Update example_consts 0 module_example_world))
       = [I2cAsyncWriteMessage 0x08 \<lparr>msg_length = 2, msg_data = [1, 1, 0, 0]\<rparr>]"
    by simp
  from t ph src have tg: "isTestLedOn (targetVars (uhkModuleStates
         (snd (UhkModuleSlaveDriver_Update example_consts 0 module_example_world)) 0))"
    by simp
  from t ph ph2 have q: "bus (snd (UhkModuleSlaveDriver_Update example_consts 0 module_example_run))
       = bus module_example_run"
    unfolding module_example_run_def by metis
  from ph d b tg ph2 len q show ?thesis
    by blast
qed

section \<open>Disconnect and the LED driver's first phase\<close>

lemmas led_defs = LedSlaveDriver_Update_def Let_def set_led_state_def led_write_def i2c_issue_def

lemma led_skip_fixpoint:
  assumes "phase (LedDriverStates w (LedDriverId_Left c)) = LedDriverPhase_SetFunctionFrame"
    and "\<not> isConnected (Slaves w (SlaveId_LeftKeyboardHalf c))"
  shows "led_updates c (LedDriverId_Left c) k w = Some w"
  using assms by (induction k) (simp_all add: led_defs)

text \<open>
  C9 (amended). Disconnecting the left keyboard half clears the connected flag of the slave
  \<^verbatim>\<open>SlaveId_LeftLedDriver\<close> and changes nothing else: when the two slave ids differ,
  the flag of the slave \<^verbatim>\<open>SlaveId_LeftKeyboardHalf\<close> is what it was before. The left LED
  driver's \<^verbatim>\<open>SetFunctionFrame\<close> phase reads the flag of the slave
  \<^verbatim>\<open>SlaveId_LeftKeyboardHalf\<close>: when that flag is clear after the disconnect, every
  further update issues no transfer and holds the phase; when it is still set, the next
  update writes the function-frame command and advances the phase.
\<close>

theorem disconnect_left_half_led_skip:
  assumes "phase (LedDriverStates w (LedDriverId_Left c)) = LedDriverPhase_SetFunctionFrame"
  shows "UhkModuleSlaveDriver_Disconnect c (SlaveId_LeftKeyboardHalf c) w
           = w\<lparr>Slaves := (Slaves w)(SlaveId_LeftLedDriver c :=
                  (Slaves w (SlaveId_LeftLedDriver c))\<lparr>isConnected := False\<rparr>)\<rparr>
       \<and> \<not> isConnected (Slaves (UhkModuleSlaveDriver_Disconnect c (SlaveId_LeftKeyboardHalf c) w)
                           (SlaveId_LeftLedDriver c))
       \<and> (SlaveId_LeftKeyboardHalf c \<noteq> SlaveId_LeftLedDriver c \<longrightarrow>
            isConnected (Slaves (UhkModuleSlaveDriver_Disconnect c (SlaveId_LeftKeyboardHalf c) w)
                           (SlaveId_LeftKeyboardHalf c))
            = isConnected (Slaves w (SlaveId_LeftKeyboardHalf c)))
       \<and> (\<not> isConnected (Slaves (UhkModuleSlaveDriver_Disconnect c (SlaveId_LeftKeyboardHalf c) w)
                           (SlaveId_LeftKeyboardHalf c)) \<longrightarrow>
            (\<forall>k. led_updates c (LedDriverId_Left c) k
                   (UhkModuleSlaveDriver_Disconnect c (SlaveId_LeftKeyboardHalf c) w)
                 = Some (UhkModuleSlaveDriver_Disconnect c (SlaveId_LeftKeyboardHalf c) w)))
       \<and> (isConnected (Slaves (UhkModuleSlaveDriver_Disconnect c (SlaveId_LeftKeyboardHalf c) w)
                           (SlaveId_LeftKeyboardHalf c)) \<longrightarrow>
            (\<exists>w'. LedSlaveDriver_Update c (LedDriverId_Left c)
                    (UhkModuleSlaveDriver_Disconnect c (SlaveId_LeftKeyboardHalf c) w) = Some w'
                 \<and> bus w' = bus w @ [I2cAsyncWrite (i2cAddress (LedDriverStates w (LedDriverId_Left c)))
                                       [LED_DRIVER_REGISTER_FRAME c, LED_DRIVER_FRAME_FUNCTION c] 2]
                 \<and> phase (LedDriverStates w' (LedDriverId_Left c)) = LedDriverPhase_SetShutdownModeNormal))"
proof -
  let ?wd = "UhkModuleSlaveDriver_Disconnect c (SlaveId_LeftKeyboardHalf c) w"
  have wd: "?wd = w\<lparr>Slaves := (Slaves w)(SlaveId_LeftLedDriver c :=
                  (Slaves w (SlaveId_LeftLedDriver c))\<lparr>isConnected := False\<rparr>)\<rparr>"
    by (simp add: UhkModuleSlaveDriver_Disconnect_def)
  have ph: "phase (LedDriverStates ?wd (LedDriverId_Left c)) = LedDriverPhase_SetFunctionFrame"
    using assms by (simp add: wd)
  have skip: "led_updates c (LedDriverId_Left c) k ?wd = Some ?wd"
    if "\<not> isConnected (Slaves ?wd (SlaveId_LeftKeyboardHalf c))" for k
    using ph that by (rule led_skip_fixpoint)
  have go: "\<exists>w'. LedSlaveDriver_Update c (LedDriverId_Left c) ?wd = Some w'
                 \<and> bus w' = bus w @ [I2cAsyncWrite (i2cAddress (LedDriverStates w (LedDriverId_Left c)))
                                       [LED_DRIVER_REGISTER_FRAME c, LED_DRIVER_FRAME_FUNCTION c] 2]
                 \<and> phase (LedDriverStates w' (LedDriverId_Left c)) = LedDriverPhase_SetShutdownModeNormal"
    if "isConnected (Slaves ?wd (SlaveId_LeftKeyboardHalf c))"
    using ph that by (simp add: led_defs wd)
  have keep: "isConnected (Slaves ?wd (SlaveId_LeftKeyboardHalf c))
                = isConnected (Slaves w (SlaveId_LeftKeyboardHalf c))"
    if "SlaveId_LeftKeyboardHalf c \<noteq> SlaveId_LeftLedDriver c"
    using that by (simp add: wd)
  have "\<not> isConnected (Slaves ?wd (SlaveId_LeftLedDriver c))"
    by (simp add: wd)
  with wd skip go keep show ?thesis
    by blast
qed

theorem disconnect_left_half_led_skip_witness:
  "phase (LedDriverStates led_left_half_gone_world (LedDriverId_Left example_consts))
     = LedDriverPhase_SetFunctionFrame
   \<and> isConnected (Slaves led_left_half_gone_world (SlaveId_LeftLedDriver example_consts))
   \<and> \<not> isConnected (Slaves led_left_half_gone_world (SlaveId_LeftKeyboardHalf example_consts))
   \<and> SlaveId_LeftKeyboardHalf example_consts \<noteq> SlaveId_LeftLedDriver example_consts
   \<and> UhkModuleSlaveDriver_Disconnect example_consts (SlaveId_LeftKeyboardHalf example_consts)
        led_left_half_gone_world \<noteq> led_left_half_gone_world
   \<and> \<not> isConnected (Slaves (UhkModuleSlaveDriver_Disconnect example_consts
          (SlaveId_LeftKeyboardHalf example_consts) led_left_half_gone_world)
        (SlaveId_LeftLedDriver example_consts))
   \<and> \<not> isConnected (Slaves (UhkModuleSlaveDriver_Disconnect example_consts
          (SlaveId_LeftKeyboardHalf example_consts) led_left_half_gone_world)
        (SlaveId_LeftKeyboardHalf example_consts))
   \<and> led_updates example_consts (LedDriverId_Left example_consts) 3
        (UhkModuleSlaveDriver_Disconnect example_consts (SlaveId_LeftKeyboardHalf example_consts)
           led_left_half_gone_world)
      = Some (UhkModuleSlaveDriver_Disconnect example_consts (SlaveId_LeftKeyboardHalf example_consts)
           led_left_half_gone_world)
   \<and> (\<exists>w'. LedSlaveDriver_Update example_consts (LedDriverId_Left example_consts)
              (UhkModuleSlaveDriver_Disconnect example_consts (SlaveId_LeftKeyboardHalf example_consts)
                 (led_frame_world True)) = Some w'
          \<and> bus w' = [I2cAsyncWrite 0x74 [0xFD, 0x0B] 2]
          \<and> phase (LedDriverStates w' (LedDriverId_Left example_consts))
              = LedDriverPhase_SetShutdownModeNormal)"
proof -
  let ?c = example_consts
  let ?w = led_left_half_gone_world
  let ?wd = "UhkModuleSlaveDriver_Disconnect ?c (SlaveId_LeftKeyboardHalf ?c) ?w"
  have ph: "phase (LedDriverStates ?w (LedDriverId_Left ?c)) = LedDriverPhase_SetFunctionFrame"
    by (simp add: led_left_half_gone_world_def led_frame_world_def example_defs)
  have on4: "isConnected (Slaves ?w (SlaveId_LeftLedDriver ?c))"
    and off0: "\<not> isConnected (Slaves ?w (SlaveId_LeftKeyboardHalf ?c))"
    and ne: "SlaveId_LeftKeyboardHalf ?c \<noteq> SlaveId_LeftLedDriver ?c"
    by (simp_all add: led_left_half_gone_world_def example_consts_def)
  note th = disconnect_left_half_led_skip[OF ph]
  have off4: "\<not> isConnected (Slaves ?wd (SlaveId_LeftLedDriver ?c))"
    using th by blast
  have off0': "\<not> isConnected (Slaves ?wd (SlaveId_LeftKeyboardHalf ?c))"
    using th ne off0 by blast
  have changed: "?wd \<noteq> ?w"
    using on4 off4 by auto
  have skip: "led_updates ?c (LedDriverId_Left ?c) 3 ?wd = Some ?wd"
    using th off0' by blast
  let ?v = "led_frame_world True"
  let ?vd = "UhkModuleSlaveDriver_Disconnect ?c (SlaveId_LeftKeyboardHalf ?c) ?v"
  have phv: "phase (LedDriverStates ?v (LedDriverId_Left ?c)) = LedDriverPhase_SetFunctionFrame"
    by (simp add: led_frame_world_def example_defs)
  note tv = disconnect_left_half_led_skip[OF phv]
  have on0v: "isConnected (Slaves ?v (SlaveId_LeftKeyboardHalf ?c))"
    by (simp add: led_frame_world_def example_defs)
  have on0v': "isConnected (Slaves ?vd (SlaveId_LeftKeyboardHalf ?c))"
    using tv ne on0v by blast
  have go: "\<exists>w'. LedSlaveDriver_Update ?c (LedDriverId_Left ?c) ?vd = Some w'
          \<and> bus w' = bus ?v @ [I2cAsyncWrite (i2cAddress (LedDriverStates ?v (LedDriverId_Left ?c)))
                                       [LED_DRIVER_REGISTER_FRAME ?c, LED_DRIVER_FRAME_FUNCTION ?c] 2]
          \<and> phase (LedDriverStates w' (LedDriverId_Left ?c)) = LedDriverPhase_SetShutdownModeNormal"
    using tv on0v' by blast
  have vals: "bus ?v @ [I2cAsyncWrite (i2cAddress (LedDriverStates ?v (LedDriverId_Left ?c)))
                                       [LED_DRIVER_REGISTER_FRAME ?c, LED_DRIVER_FRAME_FUNCTION ?c] 2]
              = [I2cAsyncWrite 0x74 [0xFD, 0x0B] 2]"
    by (simp add: led_frame_world_def example_defs)
  show ?thesis
    using ph on4 off0 ne changed off4 off0' skip go unfolding vals by blast
qed

text \<open>
  C9 as stated fails: with the left keyboard half's own entry still marked connected, the
  update after the disconnect writes to the bus and leaves \<^verbatim>\<open>SetFunctionFrame\<close>.
\<close>

theorem disconnect_left_half_led_skip_counterexample:
  "phase (LedDriverStates
      (led_frame_world True)
      (LedDriverId_Left example_consts)) = LedDriverPhase_SetFunctionFrame
   \<and> \<not> isConnected (Slaves (UhkModuleSlaveDriver_Disconnect example_consts
        (SlaveId_LeftKeyboardHalf example_consts)
        (led_frame_world True))
        (SlaveId_LeftLedDriver example_consts))
   \<and> map_option (\<lambda>w'. (bus w', phase (LedDriverStates w' (LedDriverId_Left example_consts))))
       (LedSlaveDriver_Update example_consts (LedDriverId_Left example_consts)
         (UhkModuleSlaveDriver_Disconnect example_consts (SlaveId_LeftKeyboardHalf example_consts)
           (led_frame_world True)))
     = Some ([I2cAsyncWrite 0x74 [0xFD, 0x0B] 2], LedDriverPhase_SetShutdownModeNormal)"
  by (simp add: example_defs led_frame_world_def UhkModuleSlaveDriver_Disconnect_def led_defs)

section \<open>Convergence of the LED driver's \<^verbatim>\<open>Initialized\<close> phase\<close>

lemma u8_nat: "0 \<le> i \<Longrightarrow> i < 256 \<Longrightarrow> u8 i = nat i"
  by (simp add: u8_def)

lemma u8_of_nat: "n < 256 \<Longrightarrow> u8 (int n) = n"
  by (simp add: u8_def)

lemma u8_add_sub1: "1 \<le> b \<Longrightarrow> a + b - 1 < 256 \<Longrightarrow> u8 (int a + int b - 1) = a + b - 1"
proof -
  assume b: "1 \<le> b" and lt: "a + b - 1 < 256"
  have e: "int a + int b - 1 = int (a + b - 1)"
    using b by linarith
  show ?thesis
    unfolding e using lt by (rule u8_of_nat)
qed

lemma u8_sub_add1: "s \<le> e \<Longrightarrow> e - s + 1 < 256 \<Longrightarrow> u8 (int e - int s + 1) = e - s + 1"
proof -
  assume b: "s \<le> e" and lt: "e - s + 1 < 256"
  have e: "int e - int s + 1 = int (e - s + 1)"
    using b by linarith
  show ?thesis
    unfolding e using lt by (rule u8_of_nat)
qed

lemma u8_add: "a + b < 256 \<Longrightarrow> u8 (int a + int b) = a + b"
proof -
  assume lt: "a + b < 256"
  have e: "int a + int b = int (a + b)"
    by linarith
  show ?thesis
    unfolding e using lt by (rule u8_of_nat)
qed

lemma scan_start_result:
  assumes "n \<le> 255" "s < n" "count \<le> n"
  shows "\<exists>k s'. scan_start n src tgt count s = Some (k, s') \<and> count \<le> k \<and> k \<le> n \<and> s' < n
            \<and> s' = (s + (k - count)) mod n
            \<and> (\<forall>j. j < k - count \<longrightarrow> src ! ((s + j) mod n) = tgt ! ((s + j) mod n))
            \<and> (k < n \<longrightarrow> src ! s' \<noteq> tgt ! s')"
  using assms
proof (induction "n - count" arbitrary: count s)
  case 0
  then have "count = n" by simp
  then show ?case
    using 0 by (subst scan_start.simps) simp
next
  case (Suc d)
  then have lt: "count < n" by simp
  show ?case
  proof (cases "src ! s \<noteq> tgt ! s")
    case True
    then show ?thesis
      using lt Suc.prems by (subst scan_start.simps) simp
  next
    case False
    let ?s1 = "if u8 (int s + 1) \<ge> n then 0 else u8 (int s + 1)"
    have c1: "u8 (int count + 1) = Suc count"
      using lt Suc.prems(1) by (simp add: u8_def nat_add_distrib)
    have s1: "u8 (int s + 1) = Suc s"
      using Suc.prems(1,2) by (simp add: u8_def nat_add_distrib)
    have s1m: "?s1 = Suc s mod n"
      using Suc.prems(2) by (auto simp: s1 not_le le_Suc_eq)
    have s1n: "?s1 < n"
      using Suc.prems(2) by (simp add: s1m)
    have d: "d = n - Suc count"
      using Suc.hyps(2) by simp
    from Suc.hyps(1)[OF d Suc.prems(1) s1n] lt obtain k s' where
      r: "scan_start n src tgt (Suc count) ?s1 = Some (k, s')"
      and k: "Suc count \<le> k" "k \<le> n" "s' < n"
      and s': "s' = (?s1 + (k - Suc count)) mod n"
      and cl: "\<forall>j. j < k - Suc count \<longrightarrow> src ! ((?s1 + j) mod n) = tgt ! ((?s1 + j) mod n)"
      and mm: "k < n \<longrightarrow> src ! s' \<noteq> tgt ! s'"
      by auto
    have unf: "scan_start n src tgt count s = scan_start n src tgt (Suc count) ?s1"
      using lt False by (subst scan_start.simps) (simp add: c1)
    have shift: "(?s1 + j) mod n = (s + Suc j) mod n" for j
      unfolding s1m by (simp add: mod_add_left_eq)
    have "s' = (s + (k - count)) mod n"
      using s' k(1) shift[of "k - Suc count"] by (simp add: Suc_diff_Suc)
    moreover have "src ! ((s + j) mod n) = tgt ! ((s + j) mod n)" if "j < k - count" for j
    proof (cases j)
      case 0
      then show ?thesis using False Suc.prems(2) by simp
    next
      case (Suc j')
      then have "j' < k - Suc count" using that by simp
      then have "src ! ((?s1 + j') mod n) = tgt ! ((?s1 + j') mod n)"
        using cl by blast
      then show ?thesis
        unfolding shift[of j'] Suc by simp
    qed
    ultimately show ?thesis
      using r k mm unfolding unf by auto
  qed
qed

lemma scan_end_result:
  assumes "maxEnd < 255" "index \<le> Suc maxEnd"
  shows "\<exists>e'. scan_end src tgt maxEnd index e = Some e'
            \<and> ((e' = e \<and> (\<forall>j. index \<le> j \<and> j \<le> maxEnd \<longrightarrow> src ! j = tgt ! j))
                \<or> (index \<le> e' \<and> e' \<le> maxEnd \<and> src ! e' \<noteq> tgt ! e'
                    \<and> (\<forall>j. e' < j \<and> j \<le> maxEnd \<longrightarrow> src ! j = tgt ! j)))"
  using assms
proof (induction "Suc maxEnd - index" arbitrary: index e)
  case 0
  then have "\<not> index \<le> maxEnd" by simp
  then show ?case
    by (subst scan_end.simps) auto
next
  case (Suc d)
  then have le: "index \<le> maxEnd" by simp
  let ?e1 = "if src ! index \<noteq> tgt ! index then index else e"
  have i1: "u8 (int index + 1) = Suc index"
    using le Suc.prems(1) by (simp add: u8_def nat_add_distrib)
  have unf: "scan_end src tgt maxEnd index e = scan_end src tgt maxEnd (Suc index) ?e1"
    using le by (subst scan_end.simps) (simp add: i1)
  have d: "d = Suc maxEnd - Suc index"
    using Suc.hyps(2) by simp
  from Suc.hyps(1)[OF d Suc.prems(1), of ?e1] le obtain e' where
    r: "scan_end src tgt maxEnd (Suc index) ?e1 = Some e'"
    and alt: "(e' = ?e1 \<and> (\<forall>j. Suc index \<le> j \<and> j \<le> maxEnd \<longrightarrow> src ! j = tgt ! j))
                \<or> (Suc index \<le> e' \<and> e' \<le> maxEnd \<and> src ! e' \<noteq> tgt ! e'
                    \<and> (\<forall>j. e' < j \<and> j \<le> maxEnd \<longrightarrow> src ! j = tgt ! j))"
    by auto
  show ?case
  proof (cases "src ! index \<noteq> tgt ! index")
    case True
    with alt le have "index \<le> e' \<and> e' \<le> maxEnd \<and> src ! e' \<noteq> tgt ! e'
                    \<and> (\<forall>j. e' < j \<and> j \<le> maxEnd \<longrightarrow> src ! j = tgt ! j)"
      by (auto simp: Suc_le_eq)
    then show ?thesis
      using r unfolding unf by auto
  next
    case False
    have "(e' = e \<and> (\<forall>j. index \<le> j \<and> j \<le> maxEnd \<longrightarrow> src ! j = tgt ! j))
                \<or> (index \<le> e' \<and> e' \<le> maxEnd \<and> src ! e' \<noteq> tgt ! e'
                    \<and> (\<forall>j. e' < j \<and> j \<le> maxEnd \<longrightarrow> src ! j = tgt ! j))"
      using alt False by (auto simp: le_Suc_eq Suc_le_eq dest: le_neq_implies_less)
    then show ?thesis
      using r unfolding unf by auto
  qed
qed


lemma scan_start_first:
  assumes n: "n \<le> 255" and c: "c' < n"
  shows "(\<exists>k s. scan_start n src tgt 0 c' = Some (k, s) \<and> \<not> k < n
              \<and> (\<forall>j. j < n \<longrightarrow> src ! j = tgt ! j))
       \<or> (\<exists>k s. scan_start n src tgt 0 c' = Some (k, s) \<and> k < n \<and> s < n
              \<and> src ! s \<noteq> tgt ! s
              \<and> ((c' \<le> s \<and> (\<forall>j. c' \<le> j \<and> j < s \<longrightarrow> src ! j = tgt ! j))
                  \<or> (s < c' \<and> (\<forall>j. c' \<le> j \<and> j < n \<longrightarrow> src ! j = tgt ! j)
                      \<and> (\<forall>j. j < s \<longrightarrow> src ! j = tgt ! j))))"
proof -
  from scan_start_result[OF n c, of 0 src tgt] obtain k s where
    r: "scan_start n src tgt 0 c' = Some (k, s)"
    and k: "k \<le> n" and sn: "s < n"
    and s: "s = (c' + k) mod n"
    and cl: "\<And>j. j < k \<Longrightarrow> src ! ((c' + j) mod n) = tgt ! ((c' + j) mod n)"
    and mm: "k < n \<longrightarrow> src ! s \<noteq> tgt ! s"
    by auto
  show ?thesis
  proof (cases "k < n")
    case False
    then have kn: "k = n" using k by simp
    have "src ! j = tgt ! j" if "j < n" for j
    proof (cases "c' \<le> j")
      case True
      then have "(c' + (j - c')) mod n = j" using that by simp
      moreover have "j - c' < k" using that kn by simp
      ultimately show ?thesis using cl[of "j - c'"] by simp
    next
      case False
      then have "(c' + (n - c' + j)) mod n = j" using that c by simp
      moreover have "n - c' + j < k" using False c kn by simp
      ultimately show ?thesis using cl[of "n - c' + j"] by simp
    qed
    then show ?thesis using r False by blast
  next
    case True
    show ?thesis
    proof (cases "c' + k < n")
      case lin: True
      then have se: "s = c' + k" using s by simp
      have "src ! j = tgt ! j" if "c' \<le> j" "j < s" for j
      proof -
        have "(c' + (j - c')) mod n = j" using that se lin by simp
        moreover have "j - c' < k" using that se by simp
        ultimately show ?thesis using cl[of "j - c'"] by simp
      qed
      then show ?thesis using r True sn mm se by auto
    next
      case wrap: False
      then have se: "s = c' + k - n"
        using s True c by (simp add: mod_if)
      have lt: "s < c'" using se True wrap by simp
      have up: "src ! j = tgt ! j" if "c' \<le> j" "j < n" for j
      proof -
        have "(c' + (j - c')) mod n = j" using that by simp
        moreover have "j - c' < k" using that wrap by simp
        ultimately show ?thesis using cl[of "j - c'"] by simp
      qed
      have lo: "src ! j = tgt ! j" if "j < s" for j
      proof -
        have "j < n" using that sn by simp
        then have "(c' + (n - c' + j)) mod n = j" using c by simp
        moreover have "n - c' + j < k" using that se c by simp
        ultimately show ?thesis using cl[of "n - c' + j"] by simp
      qed
      show ?thesis using r True sn mm lt up lo by auto
    qed
  qed
qed


lemma led_initialized_step:
  assumes ok: "led_consts_ok c" and wf: "led_wf c i w"
  shows "((\<forall>j. j < LED_DRIVER_LED_COUNT c \<longrightarrow> sourceLedValues (LedDriverStates w i) ! j = targetLedValues (LedDriverStates w i) ! j)
          \<and> LedSlaveDriver_Update c i w = Some (set_led_state i (LedDriverStates w i\<lparr>ledIndex := 0\<rparr>) w))
       \<or> (\<exists>s e buf. s < LED_DRIVER_LED_COUNT c \<and> sourceLedValues (LedDriverStates w i) ! s \<noteq> targetLedValues (LedDriverStates w i) ! s \<and> s \<le> e \<and> e < LED_DRIVER_LED_COUNT c \<and> e < s + PMW_REGISTER_UPDATE_CHUNK_SIZE c
             \<and> (\<forall>j. e < j \<and> j < LED_DRIVER_LED_COUNT c \<and> j < s + PMW_REGISTER_UPDATE_CHUNK_SIZE c \<longrightarrow> sourceLedValues (LedDriverStates w i) ! j = targetLedValues (LedDriverStates w i) ! j)
             \<and> ((min (ledIndex (LedDriverStates w i)) (LED_DRIVER_LED_COUNT c - PMW_REGISTER_UPDATE_CHUNK_SIZE c) \<le> s \<and> (\<forall>j. min (ledIndex (LedDriverStates w i)) (LED_DRIVER_LED_COUNT c - PMW_REGISTER_UPDATE_CHUNK_SIZE c) \<le> j \<and> j < s \<longrightarrow> sourceLedValues (LedDriverStates w i) ! j = targetLedValues (LedDriverStates w i) ! j))
                  \<or> (s < min (ledIndex (LedDriverStates w i)) (LED_DRIVER_LED_COUNT c - PMW_REGISTER_UPDATE_CHUNK_SIZE c) \<and> (\<forall>j. min (ledIndex (LedDriverStates w i)) (LED_DRIVER_LED_COUNT c - PMW_REGISTER_UPDATE_CHUNK_SIZE c) \<le> j \<and> j < LED_DRIVER_LED_COUNT c \<longrightarrow> sourceLedValues (LedDriverStates w i) ! j = targetLedValues (LedDriverStates w i) ! j)
                      \<and> (\<forall>j. j < s \<longrightarrow> sourceLedValues (LedDriverStates w i) ! j = targetLedValues (LedDriverStates w i) ! j)))
             \<and> LedSlaveDriver_Update c i w
                 = Some (set_led_state i
                     (LedDriverStates w i\<lparr>targetLedValues := memcpy_at (targetLedValues (LedDriverStates w i)) s (read_at (sourceLedValues (LedDriverStates w i)) s (e - s + 1)),
                         ledIndex := (if LED_DRIVER_LED_COUNT c \<le> ledIndex (LedDriverStates w i) + (e - s + 1) then 0 else ledIndex (LedDriverStates w i) + (e - s + 1))\<rparr>)
                     (led_write (i2cAddress (LedDriverStates w i)) buf (e - s + 2)
                        (w\<lparr>updatePwmRegistersBuffer := buf\<rparr>))))"
proof -
  let ?N = "LED_DRIVER_LED_COUNT c" and ?C = "PMW_REGISTER_UPDATE_CHUNK_SIZE c" and ?st = "LedDriverStates w i"
  let ?src = "sourceLedValues (LedDriverStates w i)" and ?tgt = "targetLedValues (LedDriverStates w i)" and ?x = "ledIndex (LedDriverStates w i)"
  let ?c' = "min (ledIndex (LedDriverStates w i)) (LED_DRIVER_LED_COUNT c - PMW_REGISTER_UPDATE_CHUNK_SIZE c)"
  have C0: "0 < ?C" and CN: "?C \<le> ?N" and NC: "?N + ?C \<le> 256"
    using ok by (simp_all add: led_consts_ok_def)
  have ph: "phase ?st = LedDriverPhase_Initialized" and xN: "?x < ?N"
    using wf by (simp_all add: led_wf_def)
  have N255: "?N \<le> 255" using C0 NC by simp
  have c'N: "?c' < ?N" using C0 CN xN by simp
  have last: "u8 (int ?N - int ?C) = ?N - ?C"
    using CN N255 by (simp add: u8_def nat_diff_distrib)
  have start0: "(if ?x > ?N - ?C then ?N - ?C else ?x) = ?c'"
    by (simp add: min_def)
  note ssf = scan_start_first[OF N255 c'N, of ?src ?tgt]
  show ?thesis
  proof (cases "\<exists>k s. scan_start ?N ?src ?tgt 0 ?c' = Some (k, s) \<and> \<not> k < ?N
              \<and> (\<forall>j. j < ?N \<longrightarrow> ?src ! j = ?tgt ! j)")
    case True
    then obtain k s where r: "scan_start ?N ?src ?tgt 0 ?c' = Some (k, s)" and nk: "\<not> k < ?N"
      and cl: "\<forall>j. j < ?N \<longrightarrow> ?src ! j = ?tgt ! j"
      by blast
    have upd: "LedSlaveDriver_Update c i w = Some (set_led_state i (?st\<lparr>ledIndex := 0\<rparr>) w)"
      using nk unfolding LedSlaveDriver_Update_def
      by (simp only: Let_def ph led_driver_phase.case last start0 r option.case prod.case
            if_True simp_thms)
    show ?thesis
      by (rule disjI1, rule conjI) (rule cl, rule upd)
  next
    case False
    with ssf obtain k s where
      r: "scan_start ?N ?src ?tgt 0 ?c' = Some (k, s)" and kN: "k < ?N" and sN: "s < ?N"
      and mm: "?src ! s \<noteq> ?tgt ! s"
      and first: "(?c' \<le> s \<and> (\<forall>j. ?c' \<le> j \<and> j < s \<longrightarrow> ?src ! j = ?tgt ! j))
                  \<or> (s < ?c' \<and> (\<forall>j. ?c' \<le> j \<and> j < ?N \<longrightarrow> ?src ! j = ?tgt ! j)
                      \<and> (\<forall>j. j < s \<longrightarrow> ?src ! j = ?tgt ! j))"
      by blast
    define m where "m = min (?N - s) ?C"
    define maxEnd where "maxEnd = s + m - 1"
    have mN: "m \<le> ?N - s" and mC: "m \<le> ?C" and m1: "1 \<le> m"
      and mcases: "m = ?N - s \<or> m = ?C"
      using sN C0 by (auto simp: m_def min_def)
    have mi: "min (int ?N - int s) (int ?C) = int m"
      unfolding m_def using sN by (simp add: min_def) linarith
    have m256: "m < 256" using mC CN NC by linarith
    have mc: "u8 (min (int ?N - int s) (int ?C)) = m"
      unfolding mi using m256 by (rule u8_of_nat)
    have meN: "maxEnd < ?N" unfolding maxEnd_def using mN m1 sN by linarith
    have me: "u8 (int s + int m - 1) = maxEnd"
      unfolding maxEnd_def using m1 meN[unfolded maxEnd_def] N255 by (intro u8_add_sub1) simp_all
    have me255: "maxEnd < 255" using meN N255 by simp
    have sle: "s \<le> Suc maxEnd" unfolding maxEnd_def by simp
    from scan_end_result[OF me255 sle, of ?src ?tgt s] obtain e where
      re: "scan_end ?src ?tgt maxEnd s s = Some e"
      and alt: "(e = s \<and> (\<forall>j. s \<le> j \<and> j \<le> maxEnd \<longrightarrow> ?src ! j = ?tgt ! j))
                \<or> (s \<le> e \<and> e \<le> maxEnd \<and> ?src ! e \<noteq> ?tgt ! e
                    \<and> (\<forall>j. e < j \<and> j \<le> maxEnd \<longrightarrow> ?src ! j = ?tgt ! j))"
      by blast
    have smax: "s \<le> maxEnd" unfolding maxEnd_def using m1 by linarith
    have "\<not> (\<forall>j. s \<le> j \<and> j \<le> maxEnd \<longrightarrow> ?src ! j = ?tgt ! j)"
      using mm smax by blast
    with alt have se: "s \<le> e" and em: "e \<le> maxEnd"
      and cle: "\<forall>j. e < j \<and> j \<le> maxEnd \<longrightarrow> ?src ! j = ?tgt ! j"
      by blast+
    have eN: "e < ?N" using em meN by simp
    have eC: "e < s + ?C" using em mC m1 unfolding maxEnd_def by linarith
    have lenC: "e - s + 1 \<le> ?C" using eC se by simp
    have len: "u8 (int e - int s + 1) = e - s + 1"
      using se lenC CN NC by (intro u8_sub_add1) simp_all
    have idx: "u8 (int ?x + int (e - s + 1)) = ?x + (e - s + 1)"
      using xN lenC NC by (intro u8_add) simp
    have cle': "\<forall>j. e < j \<and> j < ?N \<and> j < s + ?C \<longrightarrow> ?src ! j = ?tgt ! j"
    proof (intro allI impI)
      fix j assume j: "e < j \<and> j < ?N \<and> j < s + ?C"
      have "j \<le> maxEnd"
        using mcases j sN unfolding maxEnd_def by (elim disjE; simp; linarith)
      with j cle show "?src ! j = ?tgt ! j" by blast
    qed
    let ?buf = "memcpy_at ((updatePwmRegistersBuffer w)
                  [0 := of_nat (FRAME_REGISTER_PWM_FIRST c + s)]) 1 (read_at ?src s (e - s + 1))"
    have nk: "(\<not> k < ?N) = False" using kN by simp
    have "LedSlaveDriver_Update c i w
          = Some (set_led_state i
                     (?st\<lparr>targetLedValues := memcpy_at ?tgt s (read_at ?src s (e - s + 1)),
                         ledIndex := (if ?N \<le> ?x + (e - s + 1) then 0 else ?x + (e - s + 1))\<rparr>)
                     (led_write (i2cAddress ?st) ?buf (e - s + 1 + 1)
                        (w\<lparr>updatePwmRegistersBuffer := ?buf\<rparr>)))"
      unfolding LedSlaveDriver_Update_def
      by (simp only: Let_def ph led_driver_phase.case last start0 r option.case prod.case nk
            if_False mc me re len idx)
    then have upd: "LedSlaveDriver_Update c i w
          = Some (set_led_state i
                     (?st\<lparr>targetLedValues := memcpy_at ?tgt s (read_at ?src s (e - s + 1)),
                         ledIndex := (if ?N \<le> ?x + (e - s + 1) then 0 else ?x + (e - s + 1))\<rparr>)
                     (led_write (i2cAddress ?st) ?buf (e - s + 2)
                        (w\<lparr>updatePwmRegistersBuffer := ?buf\<rparr>)))"
      by simp
    show ?thesis
      apply (rule disjI2)
      apply (rule exI[of _ s])
      apply (rule exI[of _ e])
      apply (rule exI[of _ ?buf])
      apply (intro conjI)
             apply (rule sN)
            apply (rule mm)
           apply (rule se)
          apply (rule eN)
         apply (rule eC)
        apply (rule cle')
       apply (rule first)
      apply (rule upd)
      done
  qed
qed


lemma ceil_step:
  assumes C0: "0 < C" and as: "a \<le> s" and sb: "s < (b::nat)"
  shows "(b - (s + C) + C - 1) div C + 1 \<le> (b - a + C - 1) div C"
proof (cases "b \<le> s + C")
  case True
  then have "(b - (s + C) + C - 1) div C = 0"
    using C0 by simp
  moreover have "C \<le> b - a + C - 1"
    using as sb by linarith
  then have "C div C \<le> (b - a + C - 1) div C"
    by (rule div_le_mono)
  ultimately show ?thesis
    using C0 by simp
next
  case False
  define X where "X = b - (s + C) + C - 1"
  have e: "X + C = b - s + C - 1"
    unfolding X_def using False by linarith
  have "X div C + 1 = (X + C) div C"
    using C0 div_add_self2[of C X] by linarith
  also have "\<dots> = (b - s + C - 1) div C"
    unfolding e ..
  also have "\<dots> \<le> (b - a + C - 1) div C"
    using as sb by (intro div_le_mono) linarith
  finally show ?thesis unfolding X_def .
qed

lemma ceil_zero: "0 < C \<Longrightarrow> ((z::nat) + C - 1) div C = 0 \<Longrightarrow> z = 0"
  by (cases z) (simp_all add: div_eq_0_iff)

lemma ceil_split:
  assumes C0: "0 < (C::nat)"
  shows "(p + C - 1) div C + (q + C - 1) div C \<le> (p + q + C - 1) div C + 1"
proof -
  have "(p + C - 1) div C \<le> p div C + 1"
  proof -
    have "(p + C - 1) div C \<le> (p + C) div C"
      by (intro div_le_mono) simp
    moreover have "(p + C) div C = p div C + 1"
      using C0 div_add_self2[of C p] by linarith
    ultimately show ?thesis by linarith
  qed
  moreover have "p div C + (q + C - 1) div C \<le> (p + q + C - 1) div C"
  proof -
    define Y where "Y = q + C - 1"
    have "p div C + Y div C = (Y + p div C * C) div C"
      using C0 div_mult_self1[of C Y "p div C"] by linarith
    also have "\<dots> \<le> (p + q + C - 1) div C"
    proof (intro div_le_mono)
      have "p div C * C \<le> p" by (rule div_times_less_eq_dividend)
      then show "Y + p div C * C \<le> p + q + C - 1"
        unfolding Y_def using C0 by linarith
    qed
    finally show ?thesis unfolding Y_def .
  qed
  ultimately show ?thesis by linarith
qed


lemma memcpy_read_nth:
  assumes ls: "length src = N" and lt: "length tgt = N" and se: "s \<le> e" and eN: "e < N"
  shows "length (memcpy_at tgt s (read_at src s (e - s + 1))) = N"
    and "\<forall>j. j < N \<longrightarrow> memcpy_at tgt s (read_at src s (e - s + 1)) ! j
            = (if s \<le> j \<and> j \<le> e then src ! j else tgt ! j)"
proof -
  define xs where "xs = read_at src s (e - s + 1)"
  have lx: "length xs = e - s + 1"
    unfolding xs_def read_at_def using ls se eN by simp
  have nx: "\<And>j. j < e - s + 1 \<Longrightarrow> xs ! j = src ! (s + j)"
    unfolding xs_def read_at_def using ls se eN by simp
  show "length (memcpy_at tgt s (read_at src s (e - s + 1))) = N"
    unfolding xs_def[symmetric] memcpy_at_def using lx lt se eN by simp
  show "\<forall>j. j < N \<longrightarrow> memcpy_at tgt s (read_at src s (e - s + 1)) ! j
            = (if s \<le> j \<and> j \<le> e then src ! j else tgt ! j)"
  proof (intro allI impI)
    fix j assume jN: "j < N"
    consider (lo) "j < s" | (mid) "s \<le> j" "j \<le> e" | (hi) "e < j"
      by linarith
    then show "memcpy_at tgt s (read_at src s (e - s + 1)) ! j
            = (if s \<le> j \<and> j \<le> e then src ! j else tgt ! j)"
    proof cases
      case lo
      then show ?thesis
        unfolding xs_def[symmetric] memcpy_at_def using lt se eN
        by (simp add: nth_append)
    next
      case mid
      have lts: "length (take s tgt) = s"
        using lt se eN by simp
      have jl: "j - s < length xs"
        using mid lx by linarith
      have "(take s tgt @ xs @ drop (s + length xs) tgt) ! j
              = (xs @ drop (s + length xs) tgt) ! (j - s)"
        using mid lts by (simp add: nth_append)
      also have "\<dots> = xs ! (j - s)"
        using jl by (simp add: nth_append)
      also have "\<dots> = src ! (s + (j - s))"
        using mid by (intro nx) linarith
      also have "s + (j - s) = j"
        using mid by simp
      finally show ?thesis
        unfolding xs_def[symmetric] memcpy_at_def using mid by simp
    next
      case hi
      have lts: "length (take s tgt) = s"
        using lt se eN by simp
      have sj: "s \<le> j" and jl: "\<not> j - s < length xs"
        using hi se lx by linarith+
      have "(take s tgt @ xs @ drop (s + length xs) tgt) ! j
              = (xs @ drop (s + length xs) tgt) ! (j - s)"
        using sj lts by (simp add: nth_append)
      also have "\<dots> = drop (s + length xs) tgt ! (j - s - length xs)"
        using jl by (simp add: nth_append)
      also have "\<dots> = tgt ! (s + length xs + (j - s - length xs))"
        using hi lt se eN lx jN by (intro nth_drop) simp
      also have "s + length xs + (j - s - length xs) = j"
        using hi se lx by simp
      finally show ?thesis
        unfolding xs_def[symmetric] memcpy_at_def using hi by simp
    qed
  qed
qed

lemma cover_step:
  fixes N C :: nat
  assumes C0: "0 < C" and CN: "C \<le> N" and xN: "x < N"
    and sN: "s < N" and mis: "src ! s \<noteq> tgt ! s" and se: "s \<le> e" and eN: "e < N"
    and esC: "e < s + C"
    and tail: "\<forall>j. e < j \<and> j < N \<and> j < s + C \<longrightarrow> src ! j = tgt ! j"
    and first: "(min x (N - C) \<le> s \<and> (\<forall>j. min x (N - C) \<le> j \<and> j < s \<longrightarrow> src ! j = tgt ! j))
        \<or> (s < min x (N - C) \<and> (\<forall>j. min x (N - C) \<le> j \<and> j < N \<longrightarrow> src ! j = tgt ! j)
              \<and> (\<forall>j. j < s \<longrightarrow> src ! j = tgt ! j))"
    and tgt': "\<forall>j. j < N \<longrightarrow> tgt' ! j = (if s \<le> j \<and> j \<le> e then src ! j else tgt ! j)"
    and cov: "led_cover N C (Suc k) src tgt x"
  shows "led_cover N C k src tgt' (if N \<le> x + (e - s + 1) then 0 else x + (e - s + 1))"
proof -
  define c' where "c' = min x (N - C)"
  define x' where "x' = (if N \<le> x + (e - s + 1) then 0 else x + (e - s + 1))"
  define c'' where "c'' = min x' (N - C)"
  obtain a b l h where ca: "c' \<le> a" and bN: "b \<le> N" and hc: "h \<le> c'"
    and cv: "\<forall>j. j < N \<and> src ! j \<noteq> tgt ! j \<longrightarrow> (a \<le> j \<and> j < b) \<or> (l \<le> j \<and> j < h)"
    and sm: "(b - a + C - 1) div C + (h - l + C - 1) div C \<le> Suc k"
    using cov unfolding led_cover_def c'_def by blast
  have c'x: "c' \<le> x" and c'NC: "c' \<le> N - C"
    unfolding c'_def by simp_all
  have c'cases: "c' = x \<or> c' = N - C"
    unfolding c'_def by linarith
  have still: "\<And>j. j < N \<Longrightarrow> src ! j \<noteq> tgt' ! j \<Longrightarrow> src ! j \<noteq> tgt ! j \<and> (j < s \<or> s + C \<le> j)"
  proof -
    fix j assume jN: "j < N" and m: "src ! j \<noteq> tgt' ! j"
    have t: "tgt' ! j = (if s \<le> j \<and> j \<le> e then src ! j else tgt ! j)"
      using tgt' jN by blast
    have out: "\<not> (s \<le> j \<and> j \<le> e)"
      using m t by auto
    have same: "tgt' ! j = tgt ! j"
      unfolding t by (rule if_not_P[OF out])
    have m': "src ! j \<noteq> tgt ! j"
      using m same by simp
    have "j < s \<or> s + C \<le> j"
    proof (rule ccontr)
      assume "\<not> (j < s \<or> s + C \<le> j)"
      then have "e < j \<and> j < N \<and> j < s + C"
        using out jN by linarith
      then show False using tail m' by blast
    qed
    then show "src ! j \<noteq> tgt ! j \<and> (j < s \<or> s + C \<le> j)"
      using m' by simp
  qed
  have goal_intro: "\<And>a' b' l' h'. c'' \<le> a' \<Longrightarrow> b' \<le> N \<Longrightarrow> h' \<le> c''
      \<Longrightarrow> (\<forall>j. j < N \<and> src ! j \<noteq> tgt' ! j \<longrightarrow> (a' \<le> j \<and> j < b') \<or> (l' \<le> j \<and> j < h'))
      \<Longrightarrow> (b' - a' + C - 1) div C + (h' - l' + C - 1) div C \<le> k
      \<Longrightarrow> led_cover N C k src tgt' x'"
    unfolding led_cover_def c''_def by blast
  have zero: "((0::nat) + C - 1) div C = 0"
    using C0 by simp
  have mono: "\<not> N \<le> x + (e - s + 1) \<Longrightarrow> c' \<le> c''"
    unfolding c''_def x'_def c'_def by simp
  have wrap0: "N \<le> x + (e - s + 1) \<Longrightarrow> c'' = 0"
    unfolding c''_def x'_def by simp
  have c''NC: "c'' \<le> N - C"
    unfolding c''_def by simp
  have c''x: "\<not> N \<le> x + (e - s + 1) \<Longrightarrow> c'' \<le> x + (e - s + 1)"
    unfolding c''_def x'_def by simp
  show ?thesis
    unfolding x'_def[symmetric]
    using first unfolding c'_def[symmetric]
  proof (elim disjE conjE)
    assume cs: "c' \<le> s" and clean: "\<forall>j. c' \<le> j \<and> j < s \<longrightarrow> src ! j = tgt ! j"
    have sab: "a \<le> s \<and> s < b"
    proof -
      have "(a \<le> s \<and> s < b) \<or> (l \<le> s \<and> s < h)"
        using cv sN mis by blast
      then show ?thesis using hc cs by linarith
    qed
    have sCN: "N \<le> x + (e - s + 1) \<Longrightarrow> N \<le> s + C"
      using c'cases cs esC CN se by linarith
    have c''sC: "\<not> N \<le> x + (e - s + 1) \<Longrightarrow> c'' \<le> s + C"
      using c'cases cs esC CN se c''NC c''x by linarith
    have loc: "\<And>j. j < N \<Longrightarrow> src ! j \<noteq> tgt' ! j \<Longrightarrow> (s + C \<le> j \<and> j < b) \<or> (l \<le> j \<and> j < h)"
    proof -
      fix j assume jN: "j < N" and m: "src ! j \<noteq> tgt' ! j"
      have m': "src ! j \<noteq> tgt ! j" and pos: "j < s \<or> s + C \<le> j"
        using still[OF jN m] by simp_all
      have in_cov: "(a \<le> j \<and> j < b) \<or> (l \<le> j \<and> j < h)"
        using cv jN m' by blast
      show "(s + C \<le> j \<and> j < b) \<or> (l \<le> j \<and> j < h)"
      proof (cases "l \<le> j \<and> j < h")
        case True then show ?thesis by simp
      next
        case False
        then have ab: "a \<le> j \<and> j < b" using in_cov by blast
        have "\<not> j < s"
        proof
          assume "j < s"
          then have "c' \<le> j \<and> j < s" using ab ca by linarith
          then show False using clean m' by blast
        qed
        then show ?thesis using pos ab by linarith
      qed
    qed
    have step: "(b - (s + C) + C - 1) div C + 1 \<le> (b - a + C - 1) div C"
      using C0 sab by (intro ceil_step) simp_all
    show "led_cover N C k src tgt' x'"
    proof (cases "N \<le> x + (e - s + 1)")
      case True
      have only: "\<forall>j. j < N \<and> src ! j \<noteq> tgt' ! j \<longrightarrow> (l \<le> j \<and> j < h) \<or> ((0::nat) \<le> j \<and> j < 0)"
      proof (intro allI impI)
        fix j assume "j < N \<and> src ! j \<noteq> tgt' ! j"
        then have jN: "j < N" and m: "src ! j \<noteq> tgt' ! j" by simp_all
        have "(s + C \<le> j \<and> j < b) \<or> (l \<le> j \<and> j < h)"
          using loc[OF jN m] .
        moreover have "\<not> s + C \<le> j"
          using sCN[OF True] jN by linarith
        ultimately show "(l \<le> j \<and> j < h) \<or> ((0::nat) \<le> j \<and> j < 0)"
          by blast
      qed
      have hN: "h \<le> N" using hc c'NC by linarith
      have sum: "(h - l + C - 1) div C + (0 - 0 + C - 1) div C \<le> k"
        using sm step zero by simp
      show ?thesis
        by (rule goal_intro[where a' = l and b' = h and l' = 0 and h' = 0]) (use wrap0[OF True] hN only sum in simp_all)
    next
      case False
      have only: "\<forall>j. j < N \<and> src ! j \<noteq> tgt' ! j \<longrightarrow> (s + C \<le> j \<and> j < b) \<or> (l \<le> j \<and> j < h)"
        using loc by blast
      have sum: "(b - (s + C) + C - 1) div C + (h - l + C - 1) div C \<le> k"
        using sm step by linarith
      have hc'': "h \<le> c''" using hc mono[OF False] by linarith
      show ?thesis
        by (rule goal_intro[where a' = "s + C" and b' = b and l' = l and h' = h]) (use c''sC[OF False] bN hc'' only sum in simp_all)
    qed
  next
    assume sc: "s < c'" and cleanhi: "\<forall>j. c' \<le> j \<and> j < N \<longrightarrow> src ! j = tgt ! j"
      and cleanlo: "\<forall>j. j < s \<longrightarrow> src ! j = tgt ! j"
    have slh: "l \<le> s \<and> s < h"
    proof -
      have "(a \<le> s \<and> s < b) \<or> (l \<le> s \<and> s < h)"
        using cv sN mis by blast
      then show ?thesis using ca sc by linarith
    qed
    have loc: "\<And>j. j < N \<Longrightarrow> src ! j \<noteq> tgt' ! j \<Longrightarrow> s + C \<le> j \<and> j < h"
    proof -
      fix j assume jN: "j < N" and m: "src ! j \<noteq> tgt' ! j"
      have m': "src ! j \<noteq> tgt ! j" and pos: "j < s \<or> s + C \<le> j"
        using still[OF jN m] by simp_all
      have in_cov: "(a \<le> j \<and> j < b) \<or> (l \<le> j \<and> j < h)"
        using cv jN m' by blast
      have nlo: "\<not> j < s" using cleanlo m' by blast
      have nhi: "\<not> c' \<le> j" using cleanhi m' jN by blast
      show "s + C \<le> j \<and> j < h"
        using in_cov nlo nhi pos ca by linarith
    qed
    have step: "(h - (s + C) + C - 1) div C + 1 \<le> (h - l + C - 1) div C"
      using C0 slh by (intro ceil_step) simp_all
    have hN: "h \<le> N" using hc c'NC by linarith
    show "led_cover N C k src tgt' x'"
    proof (cases "N \<le> x + (e - s + 1)")
      case True
      have only: "\<forall>j. j < N \<and> src ! j \<noteq> tgt' ! j \<longrightarrow> (s + C \<le> j \<and> j < h) \<or> ((0::nat) \<le> j \<and> j < 0)"
        using loc by blast
      have sum: "(h - (s + C) + C - 1) div C + (0 - 0 + C - 1) div C \<le> k"
        using sm step zero by simp
      show ?thesis
        by (rule goal_intro[where a' = "s + C" and b' = h and l' = 0 and h' = 0]) (use wrap0[OF True] hN only sum in simp_all)
    next
      case False
      have only: "\<forall>j. j < N \<and> src ! j \<noteq> tgt' ! j \<longrightarrow> (N \<le> j \<and> j < N) \<or> (s + C \<le> j \<and> j < h)"
        using loc by blast
      have sum: "(N - N + C - 1) div C + (h - (s + C) + C - 1) div C \<le> k"
        using sm step zero by simp
      have hc'': "h \<le> c''" using hc mono[OF False] by linarith
      have cN: "c'' \<le> N" using c''NC by linarith
      show ?thesis
        by (rule goal_intro[where a' = N and b' = N and l' = "s + C" and h' = h]) (use cN hc'' only sum in simp_all)
    qed
  qed
qed

lemma cover_clean:
  assumes "\<forall>j. j < N \<longrightarrow> src ! j = tgt ! j" and C0: "0 < C" and CN: "C \<le> N"
  shows "led_cover N C k src tgt x"
proof -
  have "min x (N - C) \<le> N \<and> N \<le> N \<and> 0 \<le> min x (N - C)
        \<and> (\<forall>j. j < N \<and> src ! j \<noteq> tgt ! j \<longrightarrow> (N \<le> j \<and> j < N) \<or> (0 \<le> j \<and> j < 0))
        \<and> (N - N + C - 1) div C + (0 - 0 + C - 1) div C \<le> k"
    using assms by simp
  then show ?thesis
    unfolding led_cover_def by blast
qed

lemma cover_zero:
  assumes cov: "led_cover N C 0 src tgt x" and C0: "0 < C"
  shows "\<forall>j. j < N \<longrightarrow> src ! j = tgt ! j"
proof (intro allI impI)
  fix j assume jN: "j < N"
  obtain a b l h where
    cv: "\<forall>j. j < N \<and> src ! j \<noteq> tgt ! j \<longrightarrow> (a \<le> j \<and> j < b) \<or> (l \<le> j \<and> j < h)"
    and sm: "(b - a + C - 1) div C + (h - l + C - 1) div C \<le> 0"
    using cov unfolding led_cover_def by blast
  have "(b - a + C - 1) div C = 0" and "(h - l + C - 1) div C = 0"
    using sm by simp_all
  then have "b - a = 0" and "h - l = 0"
    using C0 ceil_zero by blast+
  then have "\<not> ((a \<le> j \<and> j < b) \<or> (l \<le> j \<and> j < h))"
    by linarith
  then show "src ! j = tgt ! j"
    using cv jN by blast
qed

lemma cover_initial:
  assumes C0: "0 < C" and CN: "C \<le> N"
  shows "led_cover N C ((N + C - 1) div C + (if x = 0 then 0 else 1)) src tgt x"
proof -
  define c' where "c' = min x (N - C)"
  have c'N: "c' \<le> N" unfolding c'_def using CN by simp
  have zero: "((0::nat) + C - 1) div C = 0"
    using C0 by simp
  have sum: "(N - c' + C - 1) div C + (c' - 0 + C - 1) div C \<le> (N + C - 1) div C + (if x = 0 then 0 else 1)"
  proof (cases "x = 0")
    case True
    then have "c' = 0" unfolding c'_def by simp
    then show ?thesis using zero True by simp
  next
    case False
    have "(N - c' + C - 1) div C + (c' + C - 1) div C \<le> (N - c' + c' + C - 1) div C + 1"
      using C0 by (rule ceil_split)
    moreover have "N - c' + c' = N" using c'N by simp
    ultimately show ?thesis using False by simp
  qed
  have "c' \<le> c' \<and> N \<le> N \<and> c' \<le> c'
        \<and> (\<forall>j. j < N \<and> src ! j \<noteq> tgt ! j \<longrightarrow> (c' \<le> j \<and> j < N) \<or> (0 \<le> j \<and> j < c'))
        \<and> (N - c' + C - 1) div C + (c' - 0 + C - 1) div C \<le> (N + C - 1) div C + (if x = 0 then 0 else 1)"
    using sum by (simp add: not_less[symmetric] del: not_less) 
  then show ?thesis
    unfolding led_cover_def c'_def[symmetric] by blast
qed


lemma led_state_set_led_state: "LedDriverStates (set_led_state i st w) i = st"
  by (simp add: set_led_state_def)

lemma bus_set_led_state: "bus (set_led_state i st w) = bus w"
  by (simp add: set_led_state_def)

lemma bus_led_write:
  "bus (led_write a buf n (w\<lparr>updatePwmRegistersBuffer := b\<rparr>)) = bus w @ [I2cAsyncWrite a (take n buf) n]"
  by (simp add: led_write_def i2c_issue_def)

lemma led_update_step:
  assumes ok: "led_consts_ok c" and wf: "led_wf c i w"
    and cov: "led_cover (LED_DRIVER_LED_COUNT c) (PMW_REGISTER_UPDATE_CHUNK_SIZE c) (Suc k)
                (sourceLedValues (LedDriverStates w i)) (targetLedValues (LedDriverStates w i))
                (ledIndex (LedDriverStates w i))"
  shows "\<exists>w1 ops. LedSlaveDriver_Update c i w = Some w1 \<and> led_wf c i w1
           \<and> sourceLedValues (LedDriverStates w1 i) = sourceLedValues (LedDriverStates w i)
           \<and> led_cover (LED_DRIVER_LED_COUNT c) (PMW_REGISTER_UPDATE_CHUNK_SIZE c) k
                (sourceLedValues (LedDriverStates w i)) (targetLedValues (LedDriverStates w1 i))
                (ledIndex (LedDriverStates w1 i))
           \<and> bus w1 = bus w @ ops
           \<and> (\<forall>op. op \<in> set ops \<longrightarrow> i2c_write_size op \<le> PMW_REGISTER_UPDATE_CHUNK_SIZE c + 1)"
proof -
  define N where "N = LED_DRIVER_LED_COUNT c"
  define C where "C = PMW_REGISTER_UPDATE_CHUNK_SIZE c"
  define st where "st = LedDriverStates w i"
  define src where "src = sourceLedValues st"
  define tgt where "tgt = targetLedValues st"
  define x where "x = ledIndex st"
  have C0: "0 < C" and CN: "C \<le> N"
    using ok unfolding led_consts_ok_def N_def C_def by simp_all
  have ph: "phase st = LedDriverPhase_Initialized" and ls: "length src = N"
    and lt: "length tgt = N" and xN: "x < N"
    using wf unfolding led_wf_def N_def st_def src_def tgt_def x_def by simp_all
  note step = led_initialized_step[OF ok wf, folded N_def C_def st_def, folded src_def tgt_def x_def]
  note cov' = cov[folded N_def C_def st_def, folded src_def tgt_def x_def]
  have goal: "\<And>w1 ops. LedSlaveDriver_Update c i w = Some w1 \<Longrightarrow> led_wf c i w1
      \<Longrightarrow> sourceLedValues (LedDriverStates w1 i) = src
      \<Longrightarrow> led_cover N C k src (targetLedValues (LedDriverStates w1 i)) (ledIndex (LedDriverStates w1 i))
      \<Longrightarrow> bus w1 = bus w @ ops
      \<Longrightarrow> (\<forall>op. op \<in> set ops \<longrightarrow> i2c_write_size op \<le> C + 1)
      \<Longrightarrow> ?thesis"
    unfolding N_def C_def src_def st_def by blast
  from step show ?thesis
  proof (rule disjE)
    assume both: "(\<forall>j. j < N \<longrightarrow> src ! j = tgt ! j)
      \<and> LedSlaveDriver_Update c i w = Some (set_led_state i (st\<lparr>ledIndex := 0\<rparr>) w)"
    have clean: "\<forall>j. j < N \<longrightarrow> src ! j = tgt ! j"
      and upd: "LedSlaveDriver_Update c i w = Some (set_led_state i (st\<lparr>ledIndex := 0\<rparr>) w)"
      using both by blast+
    define w1 where "w1 = set_led_state i (st\<lparr>ledIndex := 0\<rparr>) w"
    have s1: "LedDriverStates w1 i = st\<lparr>ledIndex := 0\<rparr>"
      unfolding w1_def by (rule led_state_set_led_state)
    have wf1: "led_wf c i w1"
      unfolding led_wf_def s1 using ph ls lt xN
      unfolding N_def src_def tgt_def by simp
    have src1: "sourceLedValues (LedDriverStates w1 i) = src"
      unfolding s1 src_def by simp
    have tgt1: "targetLedValues (LedDriverStates w1 i) = tgt"
      unfolding s1 tgt_def by simp
    have cov1: "led_cover N C k src (targetLedValues (LedDriverStates w1 i)) (ledIndex (LedDriverStates w1 i))"
      unfolding tgt1 using clean C0 CN by (rule cover_clean)
    have bus1: "bus w1 = bus w @ []"
      unfolding w1_def by (simp add: bus_set_led_state)
    show ?thesis
      by (rule goal[of w1 "[]"]) (use upd wf1 src1 cov1 bus1 in \<open>simp_all add: w1_def\<close>)
  next
    assume "\<exists>s e buf. s < N \<and> src ! s \<noteq> tgt ! s \<and> s \<le> e \<and> e < N \<and> e < s + C
      \<and> (\<forall>j. e < j \<and> j < N \<and> j < s + C \<longrightarrow> src ! j = tgt ! j)
      \<and> ((min x (N - C) \<le> s \<and> (\<forall>j. min x (N - C) \<le> j \<and> j < s \<longrightarrow> src ! j = tgt ! j))
        \<or> (s < min x (N - C) \<and> (\<forall>j. min x (N - C) \<le> j \<and> j < N \<longrightarrow> src ! j = tgt ! j)
              \<and> (\<forall>j. j < s \<longrightarrow> src ! j = tgt ! j)))
      \<and> LedSlaveDriver_Update c i w
                 = Some (set_led_state i
                     (st\<lparr>targetLedValues := memcpy_at tgt s (read_at src s (e - s + 1)),
                         ledIndex := (if N \<le> x + (e - s + 1) then 0 else x + (e - s + 1))\<rparr>)
                     (led_write (i2cAddress st) buf (e - s + 2)
                        (w\<lparr>updatePwmRegistersBuffer := buf\<rparr>)))"
    then obtain s e buf where sN: "s < N" and mis: "src ! s \<noteq> tgt ! s" and se: "s \<le> e" and eN: "e < N"
      and esC: "e < s + C"
      and tail: "\<forall>j. e < j \<and> j < N \<and> j < s + C \<longrightarrow> src ! j = tgt ! j"
      and first: "(min x (N - C) \<le> s \<and> (\<forall>j. min x (N - C) \<le> j \<and> j < s \<longrightarrow> src ! j = tgt ! j))
        \<or> (s < min x (N - C) \<and> (\<forall>j. min x (N - C) \<le> j \<and> j < N \<longrightarrow> src ! j = tgt ! j)
              \<and> (\<forall>j. j < s \<longrightarrow> src ! j = tgt ! j))"
      and upd: "LedSlaveDriver_Update c i w
                 = Some (set_led_state i
                     (st\<lparr>targetLedValues := memcpy_at tgt s (read_at src s (e - s + 1)),
                         ledIndex := (if N \<le> x + (e - s + 1) then 0 else x + (e - s + 1))\<rparr>)
                     (led_write (i2cAddress st) buf (e - s + 2)
                        (w\<lparr>updatePwmRegistersBuffer := buf\<rparr>)))"
      by blast
    define tgt' where "tgt' = memcpy_at tgt s (read_at src s (e - s + 1))"
    define x' where "x' = (if N \<le> x + (e - s + 1) then 0 else x + (e - s + 1))"
    define w1 where "w1 = set_led_state i (st\<lparr>targetLedValues := tgt', ledIndex := x'\<rparr>)
                     (led_write (i2cAddress st) buf (e - s + 2) (w\<lparr>updatePwmRegistersBuffer := buf\<rparr>))"
    have upd1: "LedSlaveDriver_Update c i w = Some w1"
      unfolding w1_def tgt'_def x'_def by (rule upd)
    have s1: "LedDriverStates w1 i = st\<lparr>targetLedValues := tgt', ledIndex := x'\<rparr>"
      unfolding w1_def by (rule led_state_set_led_state)
    have lt': "length tgt' = N"
      unfolding tgt'_def using ls lt se eN by (rule memcpy_read_nth(1))
    have nt': "\<forall>j. j < N \<longrightarrow> tgt' ! j = (if s \<le> j \<and> j \<le> e then src ! j else tgt ! j)"
      unfolding tgt'_def using ls lt se eN by (rule memcpy_read_nth(2))
    have x'N: "x' < N"
      unfolding x'_def using xN by simp
    have wf1: "led_wf c i w1"
      unfolding led_wf_def s1 using ph ls lt' x'N
      unfolding N_def src_def by simp
    have src1: "sourceLedValues (LedDriverStates w1 i) = src"
      unfolding s1 src_def by simp
    have tgt1: "targetLedValues (LedDriverStates w1 i) = tgt'"
      unfolding s1 by simp
    have idx1: "ledIndex (LedDriverStates w1 i) = x'"
      unfolding s1 by simp
    have cov1: "led_cover N C k src (targetLedValues (LedDriverStates w1 i)) (ledIndex (LedDriverStates w1 i))"
      unfolding tgt1 idx1 x'_def
      using C0 CN xN sN mis se eN esC tail first nt' cov' by (rule cover_step)
    have bus1: "bus w1 = bus w @ [I2cAsyncWrite (i2cAddress st) (take (e - s + 2) buf) (e - s + 2)]"
      unfolding w1_def bus_set_led_state by (rule bus_led_write)
    have sz: "\<forall>op. op \<in> set [I2cAsyncWrite (i2cAddress st) (take (e - s + 2) buf) (e - s + 2)]
               \<longrightarrow> i2c_write_size op \<le> C + 1"
      using esC se by (simp add: i2c_write_size_def)
    show ?thesis
      by (rule goal[OF upd1 wf1 src1 cov1 bus1 sz])
  qed
qed

lemma led_updates_cover:
  assumes ok: "led_consts_ok c"
  shows "led_wf c i w \<Longrightarrow>
     led_cover (LED_DRIVER_LED_COUNT c) (PMW_REGISTER_UPDATE_CHUNK_SIZE c) k
                (sourceLedValues (LedDriverStates w i)) (targetLedValues (LedDriverStates w i))
                (ledIndex (LedDriverStates w i)) \<Longrightarrow>
     \<exists>w' ops. led_updates c i k w = Some w'
        \<and> targetLedValues (LedDriverStates w' i) = sourceLedValues (LedDriverStates w i)
        \<and> bus w' = bus w @ ops
        \<and> (\<forall>op. op \<in> set ops \<longrightarrow> i2c_write_size op \<le> PMW_REGISTER_UPDATE_CHUNK_SIZE c + 1)"
proof (induction k arbitrary: w)
  case 0
  have C0: "0 < PMW_REGISTER_UPDATE_CHUNK_SIZE c"
    using ok unfolding led_consts_ok_def by simp
  have eqs: "\<forall>j. j < LED_DRIVER_LED_COUNT c \<longrightarrow>
      sourceLedValues (LedDriverStates w i) ! j = targetLedValues (LedDriverStates w i) ! j"
    using "0.prems"(2) C0 by (rule cover_zero)
  have ls: "length (sourceLedValues (LedDriverStates w i)) = LED_DRIVER_LED_COUNT c"
    and lt: "length (targetLedValues (LedDriverStates w i)) = LED_DRIVER_LED_COUNT c"
    using "0.prems"(1) unfolding led_wf_def by simp_all
  have eq: "targetLedValues (LedDriverStates w i) = sourceLedValues (LedDriverStates w i)"
    by (rule nth_equalityI) (use ls lt eqs in simp_all)
  have "led_updates c i 0 w = Some w
        \<and> targetLedValues (LedDriverStates w i) = sourceLedValues (LedDriverStates w i)
        \<and> bus w = bus w @ []
        \<and> (\<forall>op. op \<in> set [] \<longrightarrow> i2c_write_size op \<le> PMW_REGISTER_UPDATE_CHUNK_SIZE c + 1)"
    using eq by simp
  then show ?case by blast
next
  case (Suc k)
  obtain w1 ops1 where upd: "LedSlaveDriver_Update c i w = Some w1" and wf1: "led_wf c i w1"
    and src1: "sourceLedValues (LedDriverStates w1 i) = sourceLedValues (LedDriverStates w i)"
    and cov1: "led_cover (LED_DRIVER_LED_COUNT c) (PMW_REGISTER_UPDATE_CHUNK_SIZE c) k
                (sourceLedValues (LedDriverStates w i)) (targetLedValues (LedDriverStates w1 i))
                (ledIndex (LedDriverStates w1 i))"
    and bus1: "bus w1 = bus w @ ops1"
    and sz1: "\<forall>op. op \<in> set ops1 \<longrightarrow> i2c_write_size op \<le> PMW_REGISTER_UPDATE_CHUNK_SIZE c + 1"
    using led_update_step[OF ok Suc.prems(1) Suc.prems(2)] by blast
  obtain w' ops2 where run: "led_updates c i k w1 = Some w'"
    and fin: "targetLedValues (LedDriverStates w' i) = sourceLedValues (LedDriverStates w1 i)"
    and bus2: "bus w' = bus w1 @ ops2"
    and sz2: "\<forall>op. op \<in> set ops2 \<longrightarrow> i2c_write_size op \<le> PMW_REGISTER_UPDATE_CHUNK_SIZE c + 1"
    using Suc.IH[OF wf1 cov1[folded src1]] by blast
  have "led_updates c i (Suc k) w = Some w'
        \<and> targetLedValues (LedDriverStates w' i) = sourceLedValues (LedDriverStates w i)
        \<and> bus w' = bus w @ (ops1 @ ops2)
        \<and> (\<forall>op. op \<in> set (ops1 @ ops2) \<longrightarrow> i2c_write_size op \<le> PMW_REGISTER_UPDATE_CHUNK_SIZE c + 1)"
    using upd run fin src1 bus1 bus2 sz1 sz2 by auto
  then show ?case by blast
qed

lemma cover_mono:
  assumes "led_cover N C k src tgt x" and "k \<le> k'"
  shows "led_cover N C k' src tgt x"
proof -
  obtain a b l h where "min x (N - C) \<le> a" "b \<le> N" "h \<le> min x (N - C)"
    "\<forall>j. j < N \<and> src ! j \<noteq> tgt ! j \<longrightarrow> (a \<le> j \<and> j < b) \<or> (l \<le> j \<and> j < h)"
    "(b - a + C - 1) div C + (h - l + C - 1) div C \<le> k"
    using assms(1) unfolding led_cover_def by blast
  moreover have "(b - a + C - 1) div C + (h - l + C - 1) div C \<le> k'"
    using calculation(5) assms(2) by linarith
  ultimately show ?thesis
    unfolding led_cover_def by blast
qed

text \<open>
  C1 (amended). In the \<^verbatim>\<open>Initialized\<close> phase, for constants whose index arithmetic fits
  a byte and any source and target tables: with no further change of the source, after
  \<open>ceil(LED_DRIVER_LED_COUNT / PMW_REGISTER_UPDATE_CHUNK_SIZE)\<close> updates, or any larger
  number of them, the target equals the source when the cursor \<^verbatim>\<open>ledIndex\<close> starts at 0,
  and one more update is enough from any other cursor; every update of the run returns, and
  none passes more than \<^verbatim>\<open>PMW_REGISTER_UPDATE_CHUNK_SIZE\<close> + 1 bytes to the bus write.
\<close>

theorem led_initialized_converges:
  assumes ok: "led_consts_ok c" and wf: "led_wf c i w"
    and k: "(LED_DRIVER_LED_COUNT c + PMW_REGISTER_UPDATE_CHUNK_SIZE c - 1) div PMW_REGISTER_UPDATE_CHUNK_SIZE c
               + (if ledIndex (LedDriverStates w i) = 0 then 0 else 1) \<le> k"
  shows "\<exists>w'. led_updates c i k w = Some w'
          \<and> targetLedValues (LedDriverStates w' i) = sourceLedValues (LedDriverStates w i)
          \<and> (\<forall>op \<in> set (drop (length (bus w)) (bus w')).
                i2c_write_size op \<le> PMW_REGISTER_UPDATE_CHUNK_SIZE c + 1)"
proof -
  have C0: "0 < PMW_REGISTER_UPDATE_CHUNK_SIZE c"
    and CN: "PMW_REGISTER_UPDATE_CHUNK_SIZE c \<le> LED_DRIVER_LED_COUNT c"
    using ok unfolding led_consts_ok_def by simp_all
  have cov0: "led_cover (LED_DRIVER_LED_COUNT c) (PMW_REGISTER_UPDATE_CHUNK_SIZE c)
      ((LED_DRIVER_LED_COUNT c + PMW_REGISTER_UPDATE_CHUNK_SIZE c - 1) div PMW_REGISTER_UPDATE_CHUNK_SIZE c
               + (if ledIndex (LedDriverStates w i) = 0 then 0 else 1))
      (sourceLedValues (LedDriverStates w i)) (targetLedValues (LedDriverStates w i))
      (ledIndex (LedDriverStates w i))"
    using C0 CN by (rule cover_initial)
  have cov: "led_cover (LED_DRIVER_LED_COUNT c) (PMW_REGISTER_UPDATE_CHUNK_SIZE c) k
      (sourceLedValues (LedDriverStates w i)) (targetLedValues (LedDriverStates w i))
      (ledIndex (LedDriverStates w i))"
    using cov0 k by (rule cover_mono)
  obtain w' ops where run: "led_updates c i k w = Some w'"
    and fin: "targetLedValues (LedDriverStates w' i) = sourceLedValues (LedDriverStates w i)"
    and busw: "bus w' = bus w @ ops"
    and sz: "\<forall>op. op \<in> set ops \<longrightarrow> i2c_write_size op \<le> PMW_REGISTER_UPDATE_CHUNK_SIZE c + 1"
    using led_updates_cover[OF ok wf cov] by blast
  have "drop (length (bus w)) (bus w') = ops"
    unfolding busw by simp
  then show ?thesis
    using run fin sz by simp
qed

lemma led_sweep_world_facts:
  "led_consts_ok example_consts"
  "led_wf example_consts 0 (led_sweep_world 0)"
  "led_wf example_consts 0 (led_sweep_world 1)"
  "bus (led_sweep_world x) = []"
  "sourceLedValues (LedDriverStates (led_sweep_world x) 0) = led_stripes"
  "ledIndex (LedDriverStates (led_sweep_world x) 0) = x"
  "LED_DRIVER_LED_COUNT example_consts = 144"
  "PMW_REGISTER_UPDATE_CHUNK_SIZE example_consts = 8"
  by (simp_all add: led_consts_ok_def led_wf_def led_sweep_world_def example_defs led_stripes_def)

theorem led_initialized_converges_witness:
  "led_consts_ok example_consts
   \<and> led_wf example_consts 0 (led_sweep_world 1)
   \<and> led_wf example_consts 0 (led_sweep_world 0)
   \<and> (\<exists>w'. led_updates example_consts 0 19 (led_sweep_world 1) = Some w'
          \<and> targetLedValues (LedDriverStates w' 0) = led_stripes
          \<and> list_all (\<lambda>op. i2c_write_size op \<le> 9) (bus w'))
   \<and> (\<exists>w'. led_updates example_consts 0 18 (led_sweep_world 0) = Some w'
          \<and> targetLedValues (LedDriverStates w' 0) = led_stripes
          \<and> list_all (\<lambda>op. i2c_write_size op \<le> 9) (bus w'))"
proof -
  note f = led_sweep_world_facts
  have k1: "(LED_DRIVER_LED_COUNT example_consts + PMW_REGISTER_UPDATE_CHUNK_SIZE example_consts - 1)
              div PMW_REGISTER_UPDATE_CHUNK_SIZE example_consts
            + (if ledIndex (LedDriverStates (led_sweep_world 1) 0) = 0 then 0 else 1) \<le> 19"
    unfolding f by simp
  have k0: "(LED_DRIVER_LED_COUNT example_consts + PMW_REGISTER_UPDATE_CHUNK_SIZE example_consts - 1)
              div PMW_REGISTER_UPDATE_CHUNK_SIZE example_consts
            + (if ledIndex (LedDriverStates (led_sweep_world 0) 0) = 0 then 0 else 1) \<le> 18"
    unfolding f by simp
  have c1: "PMW_REGISTER_UPDATE_CHUNK_SIZE example_consts + 1 = 9"
    unfolding f by simp
  note t1 = led_initialized_converges[OF f(1) f(3) k1, unfolded c1 f(4) f(5)]
  note t0 = led_initialized_converges[OF f(1) f(2) k0, unfolded c1 f(4) f(5)]
  have a1: "\<exists>w'. led_updates example_consts 0 19 (led_sweep_world 1) = Some w'
          \<and> targetLedValues (LedDriverStates w' 0) = led_stripes
          \<and> list_all (\<lambda>op. i2c_write_size op \<le> 9) (bus w')"
    using t1 by (simp add: list_all_iff)
  have a0: "\<exists>w'. led_updates example_consts 0 18 (led_sweep_world 0) = Some w'
          \<and> targetLedValues (LedDriverStates w' 0) = led_stripes
          \<and> list_all (\<lambda>op. i2c_write_size op \<le> 9) (bus w')"
    using t0 by (simp add: list_all_iff)
  show ?thesis
    using f(1) f(2) f(3) a1 a0 by blast
qed

text \<open>
  C1 as stated fails: with 144 LEDs in chunks of 8 and the cursor at 1, a source that differs
  from the target at index 0 and at the indices 7, 15, ..., 143 is not reached within
  \<open>ceil(144 / 8) = 18\<close> updates. Each of them finds the next of the indices 7, 15, ..., 143
  and writes that LED alone; index 0, behind the cursor, is written by the 19th.
\<close>

theorem led_initialized_converges_counterexample:
  "led_wf example_consts 0 (led_sweep_world 1)
   \<and> (LED_DRIVER_LED_COUNT example_consts + PMW_REGISTER_UPDATE_CHUNK_SIZE example_consts - 1)
       div PMW_REGISTER_UPDATE_CHUNK_SIZE example_consts = 18
   \<and> led_converged 0 (led_updates example_consts 0 18 (led_sweep_world 1)) = Some False
   \<and> led_converged_within example_consts 0 18 (led_sweep_world 1) = Some False"
proof -
  have a: "led_wf example_consts 0 (led_sweep_world 1)"
    by (rule led_sweep_world_facts)
  have b: "(LED_DRIVER_LED_COUNT example_consts + PMW_REGISTER_UPDATE_CHUNK_SIZE example_consts - 1)
       div PMW_REGISTER_UPDATE_CHUNK_SIZE example_consts = 18"
    unfolding led_sweep_world_facts by simp
  have c: "led_converged 0 (led_updates example_consts 0 18 (led_sweep_world 1)) = Some False"
    by code_simp
  have d: "led_converged_within example_consts 0 18 (led_sweep_world 1) = Some False"
    by code_simp
  show ?thesis
    using a b c d by blast
qed

section \<open>The framing engine: writes, acknowledgements and retries\<close>

lemma read_start_byte_hit:
  assumes "rxBytes h = kFramingPacketStartByte c # rest"
  shows "read_start_byte c 0 hdr h
         = (kStatus_Success, hdr\<lparr>startByte := kFramingPacketStartByte c\<rparr>, h\<lparr>rxBytes := rest\<rparr>)"
  using assms by (simp add: read_start_byte.simps[of c 0 hdr h] read_data_def)

lemma read_header_hit:
  assumes "rxBytes h = kFramingPacketStartByte c # t # rest"
  shows "read_header c hdr h
         = (kStatus_Success, hdr\<lparr>startByte := kFramingPacketStartByte c, packetType := t\<rparr>,
            h\<lparr>rxBytes := rest\<rparr>)"
  using assms by (simp add: read_header_def read_start_byte_hit[OF assms] read_data_def)

lemma wait_ack:
  assumes "rxBytes h = kFramingPacketStartByte c # kFramingPacketType_Ack c # rest"
    and "kFramingPacketType_Ack c \<noteq> kFramingPacketType_Nak c"
    and "kFramingPacketType_Ack c \<noteq> kFramingPacketType_AckAbort c"
  shows "wait_for_ack_packet c hdr h = (kStatus_Success, h\<lparr>rxBytes := rest\<rparr>)"
  using assms(2,3)
  by (simp add: wait_for_ack_packet.simps[of c hdr h] read_header_hit[OF assms(1)])

lemma wait_abort:
  assumes "rxBytes h = kFramingPacketStartByte c # kFramingPacketType_AckAbort c # rest"
  shows "wait_for_ack_packet c hdr h = (kStatus_AbortDataPhase, h\<lparr>rxBytes := rest\<rparr>)"
  by (simp add: wait_for_ack_packet.simps[of c hdr h] read_header_hit[OF assms(1)])

lemma wait_nak:
  assumes "rxBytes h = kFramingPacketStartByte c # kFramingPacketType_Nak c # rest"
    and "kFramingPacketType_Nak c \<noteq> kFramingPacketType_AckAbort c"
    and "writeStatus h = (\<lambda>_. kStatus_Success)"
  shows "wait_for_ack_packet c hdr h
         = wait_for_ack_packet c
             (hdr\<lparr>startByte := kFramingPacketStartByte c, packetType := kFramingPacketType_Nak c\<rparr>)
             (h\<lparr>rxBytes := rest,
                txWrites := txWrites h @
                  [framing_packet_bytes (framingPacket (g_serialContext h))
                     (length16 (dataPacket (framingPacket (g_serialContext h))))]\<rparr>)"
  using assms(2,3)
  by (simp add: wait_for_ack_packet.simps[of c hdr h] read_header_hit[OF assms(1)] write_data_def)

lemma wait_naks:
  assumes "writeStatus h = (\<lambda>_. kStatus_Success)"
    and "kFramingPacketType_Nak c \<noteq> kFramingPacketType_AckAbort c"
    and "rxBytes h = nak_stream c n @ rest"
  shows "\<exists>hdr'. wait_for_ack_packet c hdr h
         = wait_for_ack_packet c hdr'
             (h\<lparr>rxBytes := rest,
                txWrites := txWrites h @
                  replicate n (framing_packet_bytes (framingPacket (g_serialContext h))
                     (length16 (dataPacket (framingPacket (g_serialContext h)))))\<rparr>)"
  using assms
proof (induction n arbitrary: h hdr)
  case 0
  then have "h\<lparr>rxBytes := rest, txWrites := txWrites h @ []\<rparr> = h"
    by (simp add: nak_stream_def)
  then show ?case by (auto intro: exI[of _ hdr])
next
  case (Suc n)
  let ?f = "framing_packet_bytes (framingPacket (g_serialContext h))
              (length16 (dataPacket (framingPacket (g_serialContext h))))"
  let ?h1 = "h\<lparr>rxBytes := nak_stream c n @ rest, txWrites := txWrites h @ [?f]\<rparr>"
  have rx: "rxBytes h = kFramingPacketStartByte c # kFramingPacketType_Nak c # (nak_stream c n @ rest)"
    using Suc.prems(3) by (simp add: nak_stream_def)
  have step: "wait_for_ack_packet c hdr h
      = wait_for_ack_packet c
          (hdr\<lparr>startByte := kFramingPacketStartByte c, packetType := kFramingPacketType_Nak c\<rparr>) ?h1"
    using wait_nak[OF rx Suc.prems(2) Suc.prems(1)] by simp
  have "\<exists>hdr'. wait_for_ack_packet c
          (hdr\<lparr>startByte := kFramingPacketStartByte c, packetType := kFramingPacketType_Nak c\<rparr>) ?h1
        = wait_for_ack_packet c hdr'
             (?h1\<lparr>rxBytes := rest,
                txWrites := txWrites ?h1 @
                  replicate n (framing_packet_bytes (framingPacket (g_serialContext ?h1))
                     (length16 (dataPacket (framingPacket (g_serialContext ?h1)))))\<rparr>)"
    by (rule Suc.IH) (use Suc.prems in simp_all)
  then show ?case
    unfolding step by (simp add: replicate_append_same)
qed

lemma send_deferred_ack_ok:
  assumes "writeStatus h = (\<lambda>_. kStatus_Success)"
  shows "fst (send_deferred_ack c h) = kStatus_Success"
    and "txWrites (snd (send_deferred_ack c h)) = txWrites h @ deferred_sync c (g_serialContext h)"
    and "rxBytes (snd (send_deferred_ack c h)) = rxBytes h"
    and "writeStatus (snd (send_deferred_ack c h)) = writeStatus h"
    and "\<not> isAckNeeded (g_serialContext (snd (send_deferred_ack c h)))"
    and "framingPacket (g_serialContext (snd (send_deferred_ack c h)))
         = framingPacket (g_serialContext h)"
  using assms
  by (simp_all add: send_deferred_ack_def serial_packet_send_sync_def write_data_def set_ctx_def
        deferred_sync_def)

lemma write_enters_wait:
  assumes "byteCount \<le> kOutgoingPacketBufferSize c"
    and "writeStatus h = (\<lambda>_. kStatus_Success)"
  shows "serial_packet_write c (Some bytes) byteCount ptype h
         = wait_for_ack_packet c uninitialised_header (write_sent c bytes byteCount ptype h)"
proof -
  obtain st h1 where d: "send_deferred_ack c h = (st, h1)"
    by (cases "send_deferred_ack c h")
  have st: "st = kStatus_Success" and ws: "writeStatus h1 = (\<lambda>_. kStatus_Success)"
    using send_deferred_ack_ok(1,4)[OF assms(2), of c] d assms(2) by simp_all
  show ?thesis
    using assms(1) d st ws
    by (simp add: serial_packet_write_def write_sent_def outgoing_packet_def Let_def
          write_data_def set_ctx_def)
qed

lemma write_sent_props:
  assumes "writeStatus h = (\<lambda>_. kStatus_Success)"
  shows "txWrites (write_sent c bytes byteCount ptype h)
         = txWrites h @ deferred_sync c (g_serialContext h)
           @ [framing_packet_bytes
                (outgoing_packet c bytes byteCount ptype (framingPacket (g_serialContext h)))
                byteCount]"
    and "rxBytes (write_sent c bytes byteCount ptype h) = rxBytes h"
    and "writeStatus (write_sent c bytes byteCount ptype h) = writeStatus h"
    and "framingPacket (g_serialContext (write_sent c bytes byteCount ptype h))
         = outgoing_packet c bytes byteCount ptype (framingPacket (g_serialContext h))"
  using send_deferred_ack_ok(2,3,4,6)[OF assms, of c]
  by (simp_all add: write_sent_def Let_def write_data_def set_ctx_def)

lemma outgoing_length:
  "length16 (dataPacket (outgoing_packet c bytes byteCount ptype fp)) = byteCount mod 65536"
  by (simp add: outgoing_packet_def Let_def)

text \<open>
  C2. A write whose frame the peer answers with a Nak \<open>n\<close> times and then with an Ack
  (so on attempt \<open>n + 1\<close>) returns success, and the link sees, after a deferred Ack or
  AckAbort if one was pending, exactly \<open>n + 1\<close> writes of the same byte sequence: the
  header, length and CRC of the retained framing packet followed by the payload.
\<close>

theorem write_nak_retry_succeeds:
  assumes "byteCount \<le> kOutgoingPacketBufferSize c"
    and "byteCount < 65536"
    and "writeStatus h = (\<lambda>_. kStatus_Success)"
    and "kFramingPacketType_Ack c \<noteq> kFramingPacketType_Nak c"
    and "kFramingPacketType_Ack c \<noteq> kFramingPacketType_AckAbort c"
    and "kFramingPacketType_Nak c \<noteq> kFramingPacketType_AckAbort c"
    and "rxBytes h = nak_stream c n
                     @ [kFramingPacketStartByte c, kFramingPacketType_Ack c] @ rest"
  shows "fst (serial_packet_write c (Some bytes) byteCount ptype h) = kStatus_Success
       \<and> txWrites (snd (serial_packet_write c (Some bytes) byteCount ptype h))
           = txWrites h @ deferred_sync c (g_serialContext h)
             @ replicate (Suc n)
                 (framing_packet_bytes
                    (outgoing_packet c bytes byteCount ptype (framingPacket (g_serialContext h)))
                    byteCount)
       \<and> framingPacket (g_serialContext (snd (serial_packet_write c (Some bytes) byteCount ptype h)))
           = outgoing_packet c bytes byteCount ptype (framingPacket (g_serialContext h))
       \<and> rxBytes (snd (serial_packet_write c (Some bytes) byteCount ptype h)) = rest"
proof -
  let ?hw = "write_sent c bytes byteCount ptype h"
  let ?fp = "outgoing_packet c bytes byteCount ptype (framingPacket (g_serialContext h))"
  let ?f = "framing_packet_bytes ?fp byteCount"
  note p = write_sent_props[OF assms(3), of c bytes byteCount ptype]
  have retained: "framing_packet_bytes (framingPacket (g_serialContext ?hw))
                    (length16 (dataPacket (framingPacket (g_serialContext ?hw)))) = ?f"
    using assms(2) by (simp add: p(4) outgoing_length)
  let ?hn = "?hw\<lparr>rxBytes := [kFramingPacketStartByte c, kFramingPacketType_Ack c] @ rest,
                   txWrites := txWrites ?hw @ replicate n ?f\<rparr>"
  have "writeStatus ?hw = (\<lambda>_. kStatus_Success)"
    using p(3) assms(3) by simp
  moreover have "rxBytes ?hw = nak_stream c n
                     @ ([kFramingPacketStartByte c, kFramingPacketType_Ack c] @ rest)"
    using p(2) assms(7) by simp
  ultimately obtain hdr' where
    w: "wait_for_ack_packet c uninitialised_header ?hw = wait_for_ack_packet c hdr' ?hn"
    using wait_naks[of ?hw c n _ uninitialised_header, OF _ assms(6)] retained by auto
  have "rxBytes ?hn = kFramingPacketStartByte c # kFramingPacketType_Ack c # rest"
    by simp
  from wait_ack[OF this assms(4,5), of hdr'] have
    "wait_for_ack_packet c hdr' ?hn = (kStatus_Success, ?hn\<lparr>rxBytes := rest\<rparr>)" .
  with w write_enters_wait[OF assms(1,3), of bytes ptype] have
    r: "serial_packet_write c (Some bytes) byteCount ptype h
        = (kStatus_Success, ?hn\<lparr>rxBytes := rest\<rparr>)"
    by simp
  show ?thesis
    unfolding r by (simp add: p replicate_append_same)
qed

text \<open>
  C7. A write whose frame the peer answers with an AckAbort (after \<open>n\<close> Naks, \<open>n = 0\<close>
  for an immediate AckAbort) returns the abort-data-phase status, and the frame has been
  written \<open>n + 1\<close> times and no more: nothing is read or written after the AckAbort.
\<close>

theorem write_abort_stops:
  assumes "byteCount \<le> kOutgoingPacketBufferSize c"
    and "byteCount < 65536"
    and "writeStatus h = (\<lambda>_. kStatus_Success)"
    and "kFramingPacketType_Nak c \<noteq> kFramingPacketType_AckAbort c"
    and "rxBytes h = nak_stream c n
                     @ [kFramingPacketStartByte c, kFramingPacketType_AckAbort c] @ rest"
  shows "fst (serial_packet_write c (Some bytes) byteCount ptype h) = kStatus_AbortDataPhase
       \<and> txWrites (snd (serial_packet_write c (Some bytes) byteCount ptype h))
           = txWrites h @ deferred_sync c (g_serialContext h)
             @ replicate (Suc n)
                 (framing_packet_bytes
                    (outgoing_packet c bytes byteCount ptype (framingPacket (g_serialContext h)))
                    byteCount)
       \<and> rxBytes (snd (serial_packet_write c (Some bytes) byteCount ptype h)) = rest"
proof -
  let ?hw = "write_sent c bytes byteCount ptype h"
  let ?fp = "outgoing_packet c bytes byteCount ptype (framingPacket (g_serialContext h))"
  let ?f = "framing_packet_bytes ?fp byteCount"
  note p = write_sent_props[OF assms(3), of c bytes byteCount ptype]
  have retained: "framing_packet_bytes (framingPacket (g_serialContext ?hw))
                    (length16 (dataPacket (framingPacket (g_serialContext ?hw)))) = ?f"
    using assms(2) by (simp add: p(4) outgoing_length)
  let ?hn = "?hw\<lparr>rxBytes := [kFramingPacketStartByte c, kFramingPacketType_AckAbort c] @ rest,
                   txWrites := txWrites ?hw @ replicate n ?f\<rparr>"
  have "writeStatus ?hw = (\<lambda>_. kStatus_Success)"
    using p(3) assms(3) by simp
  moreover have "rxBytes ?hw = nak_stream c n
                     @ ([kFramingPacketStartByte c, kFramingPacketType_AckAbort c] @ rest)"
    using p(2) assms(5) by simp
  ultimately obtain hdr' where
    w: "wait_for_ack_packet c uninitialised_header ?hw = wait_for_ack_packet c hdr' ?hn"
    using wait_naks[of ?hw c n _ uninitialised_header, OF _ assms(4)] retained by auto
  have "rxBytes ?hn = kFramingPacketStartByte c # kFramingPacketType_AckAbort c # rest"
    by simp
  from wait_abort[OF this, of hdr'] have
    "wait_for_ack_packet c hdr' ?hn = (kStatus_AbortDataPhase, ?hn\<lparr>rxBytes := rest\<rparr>)" .
  with w write_enters_wait[OF assms(1,3), of bytes ptype] have
    r: "serial_packet_write c (Some bytes) byteCount ptype h
        = (kStatus_AbortDataPhase, ?hn\<lparr>rxBytes := rest\<rparr>)"
    by simp
  show ?thesis
    unfolding r by (simp add: p replicate_append_same)
qed

text \<open>
  C10. A write with a null payload pointer or with a byte count above the outgoing buffer
  size returns the invalid-argument status and leaves the whole state as it was: the
  context (flags, retained packet), the write log and the incoming bytes.
\<close>

theorem write_invalid_argument:
  assumes "packet = None \<or> byteCount > kOutgoingPacketBufferSize c"
  shows "serial_packet_write c packet byteCount ptype h = (kStatus_InvalidArgument, h)"
  using assms by (auto simp: serial_packet_write_def split: option.splits)

lemmas xmodem_defs = xmodem_update_def xmodem_byte_def xmodem_step_def

lemmas framing_example_defs = example_framing_def example_host_def example_ctx_def
  uninitialised_packet_def uninitialised_header_def

lemmas wire_defs = framing_packet_bytes_def packet_bytes_def header_bytes_def u16_bytes_def
  calculate_framing_crc16_def memcpy_at_def read_at_def

lemma crc_1234: "xmodem_update (xmodem_update 0 [0x5A, 0xA5, 0x04, 0x00]) [1, 2, 3, 4] = 0xED12"
  by (simp add: xmodem_defs)

theorem write_nak_retry_succeeds_witness:
  "rxBytes nak_twice_host
     = nak_stream example_framing 2
       @ [kFramingPacketStartByte example_framing, kFramingPacketType_Ack example_framing] @ [0x07]
   \<and> fst (serial_packet_write example_framing (Some [1, 2, 3, 4]) 4 kPacketType_Data nak_twice_host)
       = kStatus_Success
   \<and> txWrites (snd (serial_packet_write example_framing (Some [1, 2, 3, 4]) 4 kPacketType_Data
                      nak_twice_host))
       = replicate 3 [0x5A, 0xA5, 0x04, 0x00, 0x12, 0xED, 0x01, 0x02, 0x03, 0x04]
   \<and> rxBytes (snd (serial_packet_write example_framing (Some [1, 2, 3, 4]) 4 kPacketType_Data
                      nak_twice_host)) = [0x07]"
proof -
  have a1: "4 \<le> kOutgoingPacketBufferSize example_framing"
    by (simp add: example_framing_def)
  have a3: "writeStatus nak_twice_host = (\<lambda>_. kStatus_Success)"
    by (simp add: nak_twice_host_def example_host_def)
  have a4: "kFramingPacketType_Ack example_framing \<noteq> kFramingPacketType_Nak example_framing"
    and a5: "kFramingPacketType_Ack example_framing \<noteq> kFramingPacketType_AckAbort example_framing"
    and a6: "kFramingPacketType_Nak example_framing \<noteq> kFramingPacketType_AckAbort example_framing"
    by (simp_all add: example_framing_def)
  have a7: "rxBytes nak_twice_host
     = nak_stream example_framing 2
       @ [kFramingPacketStartByte example_framing, kFramingPacketType_Ack example_framing] @ [0x07]"
    by (simp add: nak_twice_host_def framing_example_defs nak_stream_def numeral_2_eq_2)
  have f: "framing_packet_bytes
             (outgoing_packet example_framing [1, 2, 3, 4] 4 kPacketType_Data
                (framingPacket (g_serialContext nak_twice_host))) 4
           = [0x5A, 0xA5, 0x04, 0x00, 0x12, 0xED, 0x01, 0x02, 0x03, 0x04]"
    by (simp add: nak_twice_host_def framing_example_defs outgoing_packet_def wire_defs
          crc_1234)
  have t0: "txWrites nak_twice_host = []"
    and d0: "deferred_sync example_framing (g_serialContext nak_twice_host) = []"
    by (simp_all add: nak_twice_host_def example_host_def example_ctx_def deferred_sync_def)
  from write_nak_retry_succeeds[OF a1 _ a3 a4 a5 a6 a7, of "[1, 2, 3, 4]" kPacketType_Data]
  show ?thesis
    using a7 by (simp add: f t0 d0)
qed

theorem write_abort_stops_witness:
  "rxBytes abort_host
     = nak_stream example_framing 0
       @ [kFramingPacketStartByte example_framing, kFramingPacketType_AckAbort example_framing]
       @ [0x5A, 0xA1, 0x07]
   \<and> fst (serial_packet_write example_framing (Some [1, 2, 3, 4]) 4 kPacketType_Data abort_host)
       = kStatus_AbortDataPhase
   \<and> txWrites (snd (serial_packet_write example_framing (Some [1, 2, 3, 4]) 4 kPacketType_Data
                      abort_host))
       = [[0x5A, 0xA1], [0x5A, 0xA5, 0x04, 0x00, 0x12, 0xED, 0x01, 0x02, 0x03, 0x04]]
   \<and> rxBytes (snd (serial_packet_write example_framing (Some [1, 2, 3, 4]) 4 kPacketType_Data
                      abort_host)) = [0x5A, 0xA1, 0x07]"
proof -
  have a1: "4 \<le> kOutgoingPacketBufferSize example_framing"
    by (simp add: example_framing_def)
  have a3: "writeStatus abort_host = (\<lambda>_. kStatus_Success)"
    by (simp add: abort_host_def example_host_def)
  have a6: "kFramingPacketType_Nak example_framing \<noteq> kFramingPacketType_AckAbort example_framing"
    by (simp_all add: example_framing_def)
  have a7: "rxBytes abort_host
     = nak_stream example_framing 0
       @ [kFramingPacketStartByte example_framing, kFramingPacketType_AckAbort example_framing]
       @ [0x5A, 0xA1, 0x07]"
    by (simp add: abort_host_def framing_example_defs nak_stream_def)
  have f: "framing_packet_bytes
             (outgoing_packet example_framing [1, 2, 3, 4] 4 kPacketType_Data
                (framingPacket (g_serialContext abort_host))) 4
           = [0x5A, 0xA5, 0x04, 0x00, 0x12, 0xED, 0x01, 0x02, 0x03, 0x04]"
    by (simp add: abort_host_def framing_example_defs outgoing_packet_def wire_defs
          crc_1234)
  have t0: "txWrites abort_host = []"
    and d0: "deferred_sync example_framing (g_serialContext abort_host) = [[0x5A, 0xA1]]"
    by (simp_all add: abort_host_def example_host_def example_ctx_def deferred_sync_def
          example_framing_def)
  from write_abort_stops[OF a1 _ a3 a6 a7, of "[1, 2, 3, 4]" kPacketType_Data]
  show ?thesis
    using a7 by (simp add: f t0 d0)
qed

theorem write_invalid_argument_witness:
  "33 > kOutgoingPacketBufferSize example_framing
   \<and> serial_packet_write example_framing (Some (replicate 33 0)) 33 kPacketType_Data abort_host
       = (kStatus_InvalidArgument, abort_host)
   \<and> serial_packet_write example_framing None 4 kPacketType_Command abort_host
       = (kStatus_InvalidArgument, abort_host)"
proof -
  have a: "33 > kOutgoingPacketBufferSize example_framing"
    by (simp add: example_framing_def)
  from a write_invalid_argument[where packet = "Some (replicate 33 0)" and byteCount = 33
      and c = example_framing and ptype = kPacketType_Data and h = abort_host]
    write_invalid_argument[where packet = None and byteCount = 4
      and c = example_framing and ptype = kPacketType_Command and h = abort_host]
  show ?thesis
    by simp
qed

text \<open>
  C4. The code at the failing input: with an acknowledgement pending and the other two
  flags clear, \<^verbatim>\<open>serial_send_ping_response\<close> writes the ping-response header and the
  record all the same. (Its guard is false only when all three flags are set.)
\<close>

theorem ping_response_sent_while_ack_pending:
  "isAckNeeded (g_serialContext (example_host (example_ctx True False False) []))
   \<and> serial_send_ping_response example_framing (example_host (example_ctx True False False) [])
       = (kStatus_Ping,
          (example_host (example_ctx True False False) [])
            \<lparr>txWrites := [[0x5A, 0xA7], [0x00, 0x02, 0x01, 0x50, 0x00, 0x00, 0xAA, 0xEA]]\<rparr>)"
  by (simp add: serial_send_ping_response_def example_host_def example_ctx_def example_framing_def
        write_data_def)

theorem ping_response_sent_while_ack_pending_witness:
  "txWrites (snd (serial_send_ping_response example_framing
                    (example_host (example_ctx True False False) [])))
   = [[0x5A, 0xA7], [0x00, 0x02, 0x01, 0x50, 0x00, 0x00, 0xAA, 0xEA]]"
  using ping_response_sent_while_ack_pending by simp

lemma u16_roundtrip: "n < 65536 \<Longrightarrow> u16_of_bytes (u16_bytes n) = n"
proof -
  assume n: "n < 65536"
  have a: "unat (of_nat (n mod 256) :: byte) = n mod 256"
    by (simp add: unat_of_nat)
  have b: "unat (of_nat (n div 256 mod 256) :: byte) = n div 256"
    using n by (simp add: unat_of_nat)
  show ?thesis
    by (simp add: u16_of_bytes_def u16_bytes_def a b)
qed

lemma crc_ignores_crc_field:
  "calculate_framing_crc16 c (p\<lparr>crc16_field := x\<rparr>) d = calculate_framing_crc16 c p d"
  by (simp add: calculate_framing_crc16_def header_bytes_def)

lemma read_data_exact:
  "rxBytes h = bs @ rest \<Longrightarrow> read_data (length bs) h = (kStatus_Success, bs, h\<lparr>rxBytes := rest\<rparr>)"
  by (simp add: read_data_def)

lemma read_data_packet_frame:
  assumes rx: "rxBytes h = data_frame c t crc payload @ rest"
    and t: "t = expected_type c ptype"
    and noping: "t \<noteq> kFramingPacketType_Ping c"
    and len: "length payload \<le> kIncomingPacketBufferSize c" "length payload < 65536"
    and crc: "crc < 65536"
    and dlen: "length dat = kIncomingPacketBufferSize c"
  shows "read_data_packet c p dat ptype h
         = (kStatus_Success, frame_packet c t crc payload,
            payload @ drop (length payload) dat, h\<lparr>rxBytes := rest\<rparr>)"
proof -
  let ?n = "length payload"
  have rx0: "rxBytes h = kFramingPacketStartByte c # t # (u16_bytes ?n @ u16_bytes crc @ payload @ rest)"
    using rx by (simp add: data_frame_def packet_bytes_def header_bytes_def frame_packet_def)
  let ?h1 = "h\<lparr>rxBytes := u16_bytes ?n @ u16_bytes crc @ payload @ rest\<rparr>"
  let ?hdr = "(header p)\<lparr>startByte := kFramingPacketStartByte c, packetType := t\<rparr>"
  have rh: "read_header c (header p) h = (kStatus_Success, ?hdr, ?h1)"
    by (rule read_header_hit[OF rx0])
  have l2: "length (u16_bytes x) = 2" for x
    by (simp add: u16_bytes_def)
  let ?h2 = "h\<lparr>rxBytes := u16_bytes crc @ payload @ rest\<rparr>"
  have rl: "read_length q ?h1 = (kStatus_Success, q\<lparr>length16 := ?n\<rparr>, ?h2)" for q
    using read_data_exact[of ?h1 "u16_bytes ?n" "u16_bytes crc @ payload @ rest"] len(2)
    by (simp add: read_length_def l2 u16_roundtrip)
  let ?h3 = "h\<lparr>rxBytes := payload @ rest\<rparr>"
  have rc: "read_crc16 q ?h2 = (kStatus_Success, q\<lparr>crc16_field := crc\<rparr>, ?h3)" for q
    using read_data_exact[of ?h2 "u16_bytes crc" "payload @ rest"] crc
    by (simp add: read_crc16_def l2 u16_roundtrip)
  have rd: "read_data ?n ?h3 = (kStatus_Success, payload, h\<lparr>rxBytes := rest\<rparr>)"
    using read_data_exact[of ?h3 payload rest] by simp
  have hdr: "?hdr = \<lparr>startByte = kFramingPacketStartByte c, packetType = t\<rparr>"
    by simp
  have fin: "p\<lparr>header := ?hdr, length16 := ?n, crc16_field := crc\<rparr> = frame_packet c t crc payload"
    by (simp add: frame_packet_def)
  have mc: "memcpy_at (memcpy_at dat 0 (replicate ?n 0)) 0 payload = payload @ drop ?n dat"
    using len(1) dlen by (simp add: memcpy_at_def)
  show ?thesis
  proof (cases "?n = 0")
    case True
    then show ?thesis
      using t noping len(1) rh rl rc fin
      by (simp add: read_data_packet_def Let_def expected_type_def min_def)
  next
    case False
    then show ?thesis
      using t noping len(1) rh rl rc rd fin mc
      by (simp add: read_data_packet_def Let_def expected_type_def min_def)
  qed
qed

lemma loop_good_frame:
  assumes rx: "rxBytes h = data_frame c t (frame_crc c t payload) payload @ rest"
    and t: "t = expected_type c ptype"
    and noping: "t \<noteq> kFramingPacketType_Ping c"
    and len: "length payload \<le> kIncomingPacketBufferSize c" "length payload < 65536"
  shows "serial_packet_read_loop c ptype p0 h
         = (kStatus_Success, frame_packet c t (frame_crc c t payload) payload,
            h\<lparr>rxBytes := rest,
              g_serialContext := (g_serialContext h)\<lparr>data := received c payload\<rparr>\<rparr>)"
proof -
  let ?h0 = "set_ctx ((g_serialContext h)\<lparr>data := replicate (kIncomingPacketBufferSize c) 0\<rparr>) h"
  let ?crc = "frame_crc c t payload"
  have crc: "?crc < 65536"
    by (simp add: frame_crc_def calculate_framing_crc16_def)
  have rx0: "rxBytes ?h0 = data_frame c t ?crc payload @ rest"
    using rx by (simp add: set_ctx_def)
  have rdp: "read_data_packet c p0 (data (g_serialContext ?h0)) ptype ?h0
         = (kStatus_Success, frame_packet c t ?crc payload,
            payload @ drop (length payload) (data (g_serialContext ?h0)), ?h0\<lparr>rxBytes := rest\<rparr>)"
    by (rule read_data_packet_frame[OF rx0 t noping len crc]) (simp add: set_ctx_def)
  have d: "payload @ drop (length payload) (data (g_serialContext ?h0)) = received c payload"
    by (simp add: set_ctx_def received_def)
  have ok: "crc16_field (frame_packet c t ?crc payload)
            = calculate_framing_crc16 c (frame_packet c t ?crc payload) (received c payload)"
    by (simp add: frame_crc_def frame_packet_def calculate_framing_crc16_def header_bytes_def
          read_at_def received_def)
  show ?thesis
    using rdp ok
    by (simp add: serial_packet_read_loop.simps[of c ptype p0 h] Let_def received_def set_ctx_def)
qed


lemma loop_success_crc:
  "serial_packet_read_loop c ptype p0 h = (kStatus_Success, p1, h1) \<Longrightarrow>
   crc16_field p1 = calculate_framing_crc16 c p1 (data (g_serialContext h1))"
proof (induction c ptype p0 h rule: serial_packet_read_loop.induct)
  case (1 c ptype p0 h)
  let ?h0 = "set_ctx ((g_serialContext h)\<lparr>data := replicate (kIncomingPacketBufferSize c) 0\<rparr>) h"
  obtain st pk d hh where
    r: "read_data_packet c p0 (data (g_serialContext ?h0)) ptype ?h0 = (st, pk, d, hh)"
    by (metis prod_cases4)
  let ?h2 = "set_ctx ((g_serialContext hh)\<lparr>data := d\<rparr>) hh"
  have st: "st = kStatus_Success"
    using "1.prems" r
    by (auto simp: serial_packet_read_loop.simps[of c ptype p0 h] Let_def split: if_splits)
  show ?case
  proof (cases "crc16_field pk \<noteq> calculate_framing_crc16 c pk (data (g_serialContext ?h2))")
    case True
    then have "serial_packet_read_loop c ptype pk
                 (snd (serial_packet_send_sync c (kFramingPacketType_Nak c) ?h2))
               = (kStatus_Success, p1, h1)"
      using "1.prems" r st
      by (simp add: serial_packet_read_loop.simps[of c ptype p0 h] Let_def)
    moreover have "\<not> st \<noteq> kStatus_Success"
      using st by simp
    ultimately show ?thesis
      using "1.IH"[OF refl r[symmetric] refl refl refl _ True] by blast
  next
    case False
    then have "p1 = pk" "h1 = ?h2"
      using "1.prems" r st
      by (simp_all add: serial_packet_read_loop.simps[of c ptype p0 h] Let_def)
    with False show ?thesis
      by simp
  qed
qed

lemma read_data_only_rx:
  "read_data n h = (st, bs, h1) \<Longrightarrow> h1 = h\<lparr>rxBytes := rxBytes h1\<rparr>"
  by (auto simp: read_data_def split: if_splits)

lemma read_start_byte_only_rx:
  "read_start_byte c n hdr h = (st, hdr1, h1) \<Longrightarrow> h1 = h\<lparr>rxBytes := rxBytes h1\<rparr>"
proof (induction c n hdr h rule: read_start_byte.induct)
  case (1 c n hdr h)
  obtain s bs h' where r: "read_data 1 h = (s, bs, h')"
    by (metis prod_cases3)
  have h': "h' = h\<lparr>rxBytes := rxBytes h'\<rparr>"
    using r by (rule read_data_only_rx)
  show ?case
  proof (cases "s = kStatus_Success \<and> \<not> n > kHostMaxStartByteReadCount c
                \<and> hd bs \<noteq> kFramingPacketStartByte c")
    case True
    then have "read_start_byte c (n + 1) (hdr\<lparr>startByte := hd bs\<rparr>) h' = (st, hdr1, h1)"
      using "1.prems" r by (simp add: read_start_byte.simps[of c n hdr h])
    with True have "h1 = h'\<lparr>rxBytes := rxBytes h1\<rparr>"
      using "1.IH"[OF r[symmetric] refl] by blast
    with h' show ?thesis
      by (metis host.surjective host.update_convs(2))
  next
    case False
    then have "h1 = h'"
      using "1.prems" r by (auto simp add: read_start_byte.simps[of c n hdr h] split: if_splits)
    with h' show ?thesis
      by simp
  qed
qed

lemma read_header_only_rx:
  assumes "read_header c hdr h = (st, hdr1, h1)"
  shows "h1 = h\<lparr>rxBytes := rxBytes h1\<rparr>"
proof -
  obtain s hd' h' where a: "read_start_byte c 0 hdr h = (s, hd', h')"
    by (metis prod_cases3)
  obtain s2 bs h2 where b: "read_data 1 h' = (s2, bs, h2)"
    by (metis prod_cases3)
  have h': "h' = h\<lparr>rxBytes := rxBytes h'\<rparr>"
    using a by (rule read_start_byte_only_rx)
  have h2: "h2 = h'\<lparr>rxBytes := rxBytes h2\<rparr>"
    using b by (rule read_data_only_rx)
  have "h1 = h' \<or> h1 = h2"
    using assms a b by (auto simp: read_header_def split: if_splits)
  then show ?thesis
    using h' h2 by (metis host.surjective host.update_convs(2))
qed

lemma wait_tx_extends:
  "\<exists>more. txWrites (snd (wait_for_ack_packet c hdr h)) = txWrites h @ more"
proof (induction c hdr h rule: wait_for_ack_packet.induct)
  case (1 c sync h)
  obtain st hd1 h1 where r: "read_header c sync h = (st, hd1, h1)"
    by (metis prod_cases3)
  have t1: "txWrites h1 = txWrites h"
    using read_header_only_rx[OF r] by (metis host.select_convs(3) host.surjective host.update_convs(2))
  let ?retx = "framing_packet_bytes (framingPacket (g_serialContext h1))
                 (length16 (dataPacket (framingPacket (g_serialContext h1))))"
  obtain s2 h2 where w: "write_data ?retx h1 = (s2, h2)"
    by (metis prod.exhaust)
  have t2: "txWrites h2 = txWrites h @ [?retx]"
    using w t1 by (auto simp: write_data_def)
  let ?again = "st = kStatus_Success
     \<and> \<not> (packetType hd1 \<noteq> kFramingPacketType_Ack c \<and> packetType hd1 \<noteq> kFramingPacketType_Nak c
           \<and> packetType hd1 \<noteq> kFramingPacketType_AckAbort c)
     \<and> packetType hd1 \<noteq> kFramingPacketType_AckAbort c
     \<and> packetType hd1 = kFramingPacketType_Nak c
     \<and> s2 = kStatus_Success"
  show ?case
  proof (cases ?again)
    case True
    then have eq: "wait_for_ack_packet c sync h = wait_for_ack_packet c hd1 h2"
      using r w by (auto simp add: wait_for_ack_packet.simps[of c sync h])
    have "\<exists>more. txWrites (snd (wait_for_ack_packet c hd1 h2)) = txWrites h2 @ more"
      using "1.IH"[OF r[symmetric] refl _ _ _ _ w[symmetric]] True by blast
    then show ?thesis
      unfolding eq t2 by auto
  next
    case False
    then have "snd (wait_for_ack_packet c sync h) = h1 \<or> snd (wait_for_ack_packet c sync h) = h2"
      using r w by (auto simp add: wait_for_ack_packet.simps[of c sync h] split: if_splits)
    then show ?thesis
      using t1 t2 by auto
  qed
qed

lemma write_emits_deferred_first:
  assumes "byteCount \<le> kOutgoingPacketBufferSize c"
    and "writeStatus h = (\<lambda>_. kStatus_Success)"
  shows "\<exists>more. txWrites (snd (serial_packet_write c (Some bytes) byteCount ptype h))
           = txWrites h @ deferred_sync c (g_serialContext h)
             @ [framing_packet_bytes
                  (outgoing_packet c bytes byteCount ptype (framingPacket (g_serialContext h)))
                  byteCount] @ more"
  using wait_tx_extends[of c uninitialised_header "write_sent c bytes byteCount ptype h"]
  by (simp add: write_enters_wait[OF assms] write_sent_props(1)[OF assms(2)])

lemma read_started_props:
  assumes "writeStatus h = (\<lambda>_. kStatus_Success)"
  shows "txWrites (read_started c h) = txWrites h @ deferred_sync c (g_serialContext h)"
    and "rxBytes (read_started c h) = rxBytes h"
    and "writeStatus (read_started c h) = writeStatus h"
    and "\<not> isAckNeeded (g_serialContext (read_started c h))"
proof -
  let ?hb = "set_ctx ((g_serialContext h)\<lparr>isBackToBackWrite := False\<rparr>) h"
  have ws: "writeStatus ?hb = (\<lambda>_. kStatus_Success)"
    using assms by (simp add: set_ctx_def)
  note p = send_deferred_ack_ok[OF ws, of c]
  show "txWrites (read_started c h) = txWrites h @ deferred_sync c (g_serialContext h)"
    using p(2) by (simp add: read_started_def set_ctx_def deferred_sync_def)
  show "rxBytes (read_started c h) = rxBytes h"
    using p(3) by (simp add: read_started_def set_ctx_def)
  show "writeStatus (read_started c h) = writeStatus h"
    using p(4) by (simp add: read_started_def set_ctx_def)
  show "\<not> isAckNeeded (g_serialContext (read_started c h))"
    using p(5) by (simp add: read_started_def)
qed

lemma read_enters_loop:
  assumes "writeStatus h = (\<lambda>_. kStatus_Success)"
  shows "serial_packet_read c True True ptype h
         = (case serial_packet_read_loop c ptype uninitialised_packet (read_started c h) of
              (st, p, h2) \<Rightarrow>
                if st \<noteq> kStatus_Success then (st, None, Some 0, h2)
                else (kStatus_Success, Some (data (g_serialContext h2)), Some (length16 p),
                      set_ctx ((g_serialContext h2)\<lparr>isAckNeeded := True\<rparr>) h2))"
proof -
  let ?hb = "set_ctx ((g_serialContext h)\<lparr>isBackToBackWrite := False\<rparr>) h"
  have ws: "writeStatus ?hb = (\<lambda>_. kStatus_Success)"
    using assms by (simp add: set_ctx_def)
  obtain st h1 where d: "send_deferred_ack c ?hb = (st, h1)"
    by (metis prod.exhaust)
  have "st = kStatus_Success"
    using send_deferred_ack_ok(1)[OF ws, of c] d by simp
  then show ?thesis
    using d by (simp add: serial_packet_read_def read_started_def Let_def set_ctx_def
                  split: prod.splits)
qed

lemma read_ping_lemma:
  assumes ws: "writeStatus h = (\<lambda>_. kStatus_Success)"
    and rx: "rxBytes h = kFramingPacketStartByte c # kFramingPacketType_Ping c # rest"
  shows "\<exists>h'. serial_packet_read c True True ptype h = (kStatus_Ping, None, Some 0, h')
            \<and> txWrites h' = txWrites h @ deferred_sync c (g_serialContext h)
                 @ [[kFramingPacketStartByte c, kFramingPacketType_PingResponse c],
                    k_PingResponse c]
            \<and> rxBytes h' = rest"
proof -
  let ?hs = "read_started c h"
  note p = read_started_props[OF ws, of c]
  let ?h0 = "set_ctx ((g_serialContext ?hs)\<lparr>data := replicate (kIncomingPacketBufferSize c) 0\<rparr>) ?hs"
  have rx0: "rxBytes ?h0 = kFramingPacketStartByte c # kFramingPacketType_Ping c # rest"
    using rx p(2) by (simp add: set_ctx_def)
  have na: "\<not> isAckNeeded (g_serialContext (?h0\<lparr>rxBytes := rest\<rparr>))"
    using p(4) by (simp add: set_ctx_def)
  let ?hp = "snd (serial_send_ping_response c (?h0\<lparr>rxBytes := rest\<rparr>))"
  have rdp: "read_data_packet c uninitialised_packet (data (g_serialContext ?h0)) ptype ?h0
        = (kStatus_Ping,
           uninitialised_packet\<lparr>header := (header uninitialised_packet)
              \<lparr>startByte := kFramingPacketStartByte c, packetType := kFramingPacketType_Ping c\<rparr>\<rparr>,
           data (g_serialContext ?h0), ?hp)"
    by (simp add: read_data_packet_def read_header_hit[OF rx0] serial_send_ping_response_def)
  have hp: "txWrites ?hp = txWrites h @ deferred_sync c (g_serialContext h)
                 @ [[kFramingPacketStartByte c, kFramingPacketType_PingResponse c],
                    k_PingResponse c]"
       "rxBytes ?hp = rest"
    using na p(1) by (simp_all add: serial_send_ping_response_def write_data_def set_ctx_def)
  have loop: "serial_packet_read_loop c ptype uninitialised_packet ?hs
        = (kStatus_Ping,
           uninitialised_packet\<lparr>header := (header uninitialised_packet)
              \<lparr>startByte := kFramingPacketStartByte c, packetType := kFramingPacketType_Ping c\<rparr>\<rparr>,
           set_ctx ((g_serialContext ?hp)\<lparr>data := data (g_serialContext ?h0)\<rparr>) ?hp)"
    using rdp by (simp add: serial_packet_read_loop.simps[of c ptype uninitialised_packet ?hs] Let_def)
  show ?thesis
    using hp by (simp add: read_enters_loop[OF ws] loop set_ctx_def)
qed

lemma read_success_lemma:
  assumes "serial_packet_read c True True ptype h = (kStatus_Success, pk, len, h')"
  shows "isAckNeeded (g_serialContext h') \<and> pk = Some (data (g_serialContext h'))
       \<and> (\<exists>p. len = Some (length16 p)
              \<and> crc16_field p = calculate_framing_crc16 c p (data (g_serialContext h')))"
proof -
  let ?hb = "set_ctx ((g_serialContext h)\<lparr>isBackToBackWrite := False\<rparr>) h"
  obtain st h1 where d: "send_deferred_ack c ?hb = (st, h1)"
    by (metis prod.exhaust)
  obtain st2 p h2 where l: "serial_packet_read_loop c ptype uninitialised_packet h1 = (st2, p, h2)"
    by (metis prod_cases3)
  have st: "st = kStatus_Success" and st2: "st2 = kStatus_Success"
    using assms d l by (auto simp: serial_packet_read_def Let_def split: if_splits)
  have res: "pk = Some (data (g_serialContext h2))" "len = Some (length16 p)"
      "h' = set_ctx ((g_serialContext h2)\<lparr>isAckNeeded := True\<rparr>) h2"
    using assms d l st st2 by (auto simp: serial_packet_read_def Let_def set_ctx_def)
  have "crc16_field p = calculate_framing_crc16 c p (data (g_serialContext h2))"
    using l st2 loop_success_crc by blast
  then show ?thesis
    using res by (auto simp: set_ctx_def)
qed

lemma read_good_frame_lemma:
  assumes ws: "writeStatus h = (\<lambda>_. kStatus_Success)"
    and t: "t = expected_type c ptype"
    and noping: "t \<noteq> kFramingPacketType_Ping c"
    and len: "length payload \<le> kIncomingPacketBufferSize c" "length payload < 65536"
    and rx: "rxBytes h = data_frame c t (frame_crc c t payload) payload @ rest"
  shows "\<exists>h1. serial_packet_read c True True ptype h
              = (kStatus_Success, Some (received c payload), Some (length payload), h1)
            \<and> isAckNeeded (g_serialContext h1) \<and> rxBytes h1 = rest
            \<and> writeStatus h1 = (\<lambda>_. kStatus_Success)
            \<and> txWrites h1 = txWrites h @ deferred_sync c (g_serialContext h)"
proof -
  let ?hs = "read_started c h"
  note p = read_started_props[OF ws, of c]
  have rx0: "rxBytes ?hs = data_frame c t (frame_crc c t payload) payload @ rest"
    using rx p(2) by simp
  note l = loop_good_frame[OF rx0 t noping len, of uninitialised_packet]
  show ?thesis
    using p ws by (simp add: read_enters_loop[OF ws] l set_ctx_def frame_packet_def)
qed

lemma only_rx_ws: "h1 = h\<lparr>rxBytes := r\<rparr> \<Longrightarrow> writeStatus h1 = writeStatus h"
  by simp

lemma read_data_packet_ws:
  assumes "read_data_packet c packet dat ptype h = (st, packet1, dat1, h1)"
  shows "writeStatus h1 = writeStatus h"
proof -
  obtain s hdr h' where rh: "read_header c (header packet) h = (s, hdr, h')"
    by (metis prod_cases3)
  obtain s2 p2 h2 where rl: "read_length (packet\<lparr>header := hdr\<rparr>) h' = (s2, p2, h2)"
    by (metis prod_cases3)
  obtain s3 p4 h3 where
    rc: "read_crc16 (p2\<lparr>length16 := min (kIncomingPacketBufferSize c) (length16 p2)\<rparr>) h2
         = (s3, p4, h3)"
    by (metis prod_cases3)
  obtain s4 bs h4 where rd: "read_data (length16 p4) h3 = (s4, bs, h4)"
    by (metis prod_cases3)
  have w1: "writeStatus h' = writeStatus h"
    using read_header_only_rx[OF rh] by (rule only_rx_ws)
  have w2: "writeStatus h2 = writeStatus h'"
    using rl by (auto simp: read_length_def split: prod.splits dest: read_data_only_rx[THEN only_rx_ws])
  have w3: "writeStatus h3 = writeStatus h2"
    using rc by (auto simp: read_crc16_def split: prod.splits dest: read_data_only_rx[THEN only_rx_ws])
  have w4: "writeStatus h4 = writeStatus h3"
    using read_data_only_rx[OF rd] by (rule only_rx_ws)
  have wp: "writeStatus (snd (serial_send_ping_response c h')) = writeStatus h'"
    by (simp add: serial_send_ping_response_def write_data_def)
  have "h1 = h' \<or> h1 = snd (serial_send_ping_response c h') \<or> h1 = h2 \<or> h1 = h3 \<or> h1 = h4"
    using assms rh rl rc rd
    by (auto simp: read_data_packet_def Let_def split: if_splits prod.splits)
  then show ?thesis
    using w1 w2 w3 w4 wp by auto
qed

lemma loop_ws:
  "serial_packet_read_loop c ptype p0 h = (st, p1, h1) \<Longrightarrow> writeStatus h1 = writeStatus h"
proof (induction c ptype p0 h rule: serial_packet_read_loop.induct)
  case (1 c ptype p0 h)
  let ?h0 = "set_ctx ((g_serialContext h)\<lparr>data := replicate (kIncomingPacketBufferSize c) 0\<rparr>) h"
  obtain s pk d hh where
    r: "read_data_packet c p0 (data (g_serialContext ?h0)) ptype ?h0 = (s, pk, d, hh)"
    by (metis prod_cases4)
  let ?h2 = "set_ctx ((g_serialContext hh)\<lparr>data := d\<rparr>) hh"
  have w2: "writeStatus ?h2 = writeStatus h"
    using read_data_packet_ws[OF r] by (simp add: set_ctx_def)
  let ?hn = "snd (serial_packet_send_sync c (kFramingPacketType_Nak c) ?h2)"
  have wn: "writeStatus ?hn = writeStatus h"
    using w2 by (simp add: serial_packet_send_sync_def write_data_def set_ctx_def)
  show ?case
  proof (cases "s = kStatus_Success
                \<and> crc16_field pk \<noteq> calculate_framing_crc16 c pk (data (g_serialContext ?h2))")
    case True
    then have "serial_packet_read_loop c ptype pk ?hn = (st, p1, h1)"
      using "1.prems" r
      by (simp add: serial_packet_read_loop.simps[of c ptype p0 h] Let_def)
    moreover have "\<not> s \<noteq> kStatus_Success"
      using True by simp
    ultimately have "writeStatus h1 = writeStatus ?hn"
      using "1.IH"[OF refl r[symmetric] refl refl refl] True by blast
    then show ?thesis
      using wn by simp
  next
    case False
    then have "h1 = ?h2"
      using "1.prems" r
      by (auto simp add: serial_packet_read_loop.simps[of c ptype p0 h] Let_def split: if_splits)
    then show ?thesis
      using w2 by simp
  qed
qed

lemma read_success_ws:
  assumes ws: "writeStatus h = (\<lambda>_. kStatus_Success)"
    and r: "serial_packet_read c True True ptype h = (st, pk, len, h')"
  shows "writeStatus h' = (\<lambda>_. kStatus_Success)"
proof -
  obtain st2 p h2 where
    l: "serial_packet_read_loop c ptype uninitialised_packet (read_started c h) = (st2, p, h2)"
    by (metis prod_cases3)
  have "writeStatus h2 = writeStatus (read_started c h)"
    using l by (rule loop_ws)
  then have "writeStatus h2 = (\<lambda>_. kStatus_Success)"
    using read_started_props(3)[OF ws, of c] ws by simp
  moreover have "h' = h2 \<or> h' = set_ctx ((g_serialContext h2)\<lparr>isAckNeeded := True\<rparr>) h2"
    using r l by (auto simp: read_enters_loop[OF ws] split: if_splits)
  ultimately show ?thesis
    by (auto simp: set_ctx_def)
qed

lemma ack_pending_sync:
  "isAckNeeded x \<Longrightarrow> deferred_sync c x = [[kFramingPacketStartByte c, kFramingPacketType_Ack c]]"
  by (simp add: deferred_sync_def)

text \<open>
  C6. On a link that accepts every write: when the incoming bytes start with a valid
  Command packet of \<open>n\<close> payload bytes (\<open>n\<close> within the receive buffer), the read
  returns success with that payload (in the zero-filled receive buffer) and the length
  \<open>n\<close>; and after every successful read of a Command packet the ack-needed flag is set,
  the buffer returned passes the CRC check, and the next write with valid arguments writes
  the Ack sync packet first and its own data packet second.
\<close>

theorem read_command_then_write_acks_first:
  assumes ws: "writeStatus h = (\<lambda>_. kStatus_Success)"
    and bc: "byteCount \<le> kOutgoingPacketBufferSize c"
  shows "(kFramingPacketType_Command c \<noteq> kFramingPacketType_Ping c
          \<and> length payload \<le> kIncomingPacketBufferSize c \<and> length payload < 65536
          \<and> rxBytes h = data_frame c (kFramingPacketType_Command c)
                           (frame_crc c (kFramingPacketType_Command c) payload) payload @ rest
          \<longrightarrow> (\<exists>h1. serial_packet_read c True True kPacketType_Command h
                       = (kStatus_Success, Some (received c payload), Some (length payload), h1)
                     \<and> rxBytes h1 = rest
                     \<and> txWrites h1 = txWrites h @ deferred_sync c (g_serialContext h)))
       \<and> (\<forall>pk len h1.
            serial_packet_read c True True kPacketType_Command h = (kStatus_Success, pk, len, h1)
            \<longrightarrow> isAckNeeded (g_serialContext h1)
                \<and> pk = Some (data (g_serialContext h1))
                \<and> (\<exists>p. len = Some (length16 p)
                       \<and> crc16_field p = calculate_framing_crc16 c p (data (g_serialContext h1)))
                \<and> (\<exists>more. txWrites (snd (serial_packet_write c (Some bytes) byteCount ptype h1))
                       = txWrites h1
                         @ [[kFramingPacketStartByte c, kFramingPacketType_Ack c],
                            framing_packet_bytes
                              (outgoing_packet c bytes byteCount ptype
                                 (framingPacket (g_serialContext h1))) byteCount]
                         @ more))"
proof (intro conjI impI allI)
  assume a: "kFramingPacketType_Command c \<noteq> kFramingPacketType_Ping c
          \<and> length payload \<le> kIncomingPacketBufferSize c \<and> length payload < 65536
          \<and> rxBytes h = data_frame c (kFramingPacketType_Command c)
                           (frame_crc c (kFramingPacketType_Command c) payload) payload @ rest"
  have t: "kFramingPacketType_Command c = expected_type c kPacketType_Command"
    by (simp add: expected_type_def)
  from a read_good_frame_lemma[OF ws t, of payload rest]
  show "\<exists>h1. serial_packet_read c True True kPacketType_Command h
                       = (kStatus_Success, Some (received c payload), Some (length payload), h1)
                     \<and> rxBytes h1 = rest
                     \<and> txWrites h1 = txWrites h @ deferred_sync c (g_serialContext h)"
    by auto
next
  fix pk len h1
  assume r: "serial_packet_read c True True kPacketType_Command h = (kStatus_Success, pk, len, h1)"
  note s = read_success_lemma[OF r]
  show "isAckNeeded (g_serialContext h1)"
    using s by simp
  show "pk = Some (data (g_serialContext h1))"
    using s by simp
  show "\<exists>p. len = Some (length16 p)
           \<and> crc16_field p = calculate_framing_crc16 c p (data (g_serialContext h1))"
    using s by simp
  have ws1: "writeStatus h1 = (\<lambda>_. kStatus_Success)"
    using ws r by (rule read_success_ws)
  from write_emits_deferred_first[OF bc ws1, of bytes ptype]
  show "\<exists>more. txWrites (snd (serial_packet_write c (Some bytes) byteCount ptype h1))
                       = txWrites h1
                         @ [[kFramingPacketStartByte c, kFramingPacketType_Ack c],
                            framing_packet_bytes
                              (outgoing_packet c bytes byteCount ptype
                                 (framingPacket (g_serialContext h1))) byteCount]
                         @ more"
    using s by (simp add: ack_pending_sync)
qed

text \<open>
  C3 (amended). On a link that accepts every write, a read whose next header is a Ping
  writes the ping response (header, then the fixed record) after any deferred Ack or
  AckAbort, and returns the ping status with no packet and length 0; the bytes after the
  Ping header stay unread.
\<close>

theorem read_ping_returns_ping_status:
  assumes ws: "writeStatus h = (\<lambda>_. kStatus_Success)"
    and rx: "rxBytes h = kFramingPacketStartByte c # kFramingPacketType_Ping c # rest"
  shows "\<exists>h'. serial_packet_read c True True ptype h = (kStatus_Ping, None, Some 0, h')
            \<and> txWrites h' = txWrites h @ deferred_sync c (g_serialContext h)
                 @ [[kFramingPacketStartByte c, kFramingPacketType_PingResponse c],
                    k_PingResponse c]
            \<and> rxBytes h' = rest"
  using ws rx by (rule read_ping_lemma)










lemma outgoing_frame:
  assumes "byteCount \<le> length bytes" and "byteCount < 65536"
  shows "framing_packet_bytes (outgoing_packet c bytes byteCount ptype fp) byteCount
         = data_frame c (expected_type c ptype)
             (frame_crc c (expected_type c ptype) (take byteCount bytes)) (take byteCount bytes)"
  using assms
  by (simp add: framing_packet_bytes_def outgoing_packet_def Let_def data_frame_def frame_crc_def
        frame_packet_def packet_bytes_def header_bytes_def calculate_framing_crc16_def
        read_at_def memcpy_at_def expected_type_def min_def)

lemma crc_command_1234:
  "xmodem_update (xmodem_update 0 [0x5A, 0xA4, 0x04, 0x00]) [1, 2, 3, 4] = 0x5573"
  by (simp add: xmodem_defs)

lemma crc_data_56:
  "xmodem_update (xmodem_update 0 [0x5A, 0xA5, 0x02, 0x00]) [5, 6] = 0x8DFE"
  by (simp add: xmodem_defs)

lemma frame_crc_command_1234: "frame_crc example_framing 0xA4 [1, 2, 3, 4] = 0x5573"
  by (simp add: frame_crc_def frame_packet_def example_framing_def wire_defs crc_command_1234)

lemma frame_crc_data_56: "frame_crc example_framing 0xA5 [5, 6] = 0x8DFE"
  by (simp add: frame_crc_def frame_packet_def example_framing_def wire_defs crc_data_56)

lemma data_frame_data_56:
  "data_frame example_framing 0xA5 0x8DFE [5, 6] = [0x5A, 0xA5, 0x02, 0x00, 0xFE, 0x8D, 0x05, 0x06]"
  by (simp add: data_frame_def frame_packet_def example_framing_def wire_defs)

lemma example_type_facts:
  "kFramingPacketStartByte example_framing = 0x5A"
  "kFramingPacketType_Ack example_framing = 0xA1"
  "kFramingPacketType_Nak example_framing = 0xA2"
  "kFramingPacketType_Command example_framing = 0xA4"
  "kFramingPacketType_Data example_framing = 0xA5"
  "kFramingPacketType_Ping example_framing = 0xA6"
  "kFramingPacketType_PingResponse example_framing = 0xA7"
  "kIncomingPacketBufferSize example_framing = 32"
  "kOutgoingPacketBufferSize example_framing = 32"
  "k_PingResponse example_framing = [0x00, 0x02, 0x01, 0x50, 0x00, 0x00, 0xAA, 0xEA]"
  "expected_type example_framing kPacketType_Command = 0xA4"
  "expected_type example_framing kPacketType_Data = 0xA5"
  by (simp_all add: example_framing_def expected_type_def)

lemma example_host_facts:
  "writeStatus (example_host x bs) = (\<lambda>_. kStatus_Success)"
  "rxBytes (example_host x bs) = bs"
  "txWrites (example_host x bs) = []"
  "g_serialContext (example_host x bs) = x"
  "deferred_sync c (example_ctx False b2b False) = []"
  by (simp_all add: example_host_def example_ctx_def deferred_sync_def)

theorem read_ping_returns_ping_status_witness:
  "rxBytes ping_host
     = kFramingPacketStartByte example_framing # kFramingPacketType_Ping example_framing
       # command_frame
   \<and> (\<exists>h'. serial_packet_read example_framing True True kPacketType_Command ping_host
               = (kStatus_Ping, None, Some 0, h')
            \<and> txWrites h' = [[0x5A, 0xA7], [0x00, 0x02, 0x01, 0x50, 0x00, 0x00, 0xAA, 0xEA]]
            \<and> rxBytes h' = command_frame)"
proof -
  have ws: "writeStatus ping_host = (\<lambda>_. kStatus_Success)"
    by (simp add: ping_host_def example_host_facts)
  have rx: "rxBytes ping_host
     = kFramingPacketStartByte example_framing # kFramingPacketType_Ping example_framing
       # command_frame"
    by (simp add: ping_host_def example_host_facts example_type_facts)
  from read_ping_returns_ping_status[OF ws rx, of kPacketType_Command] rx
  show ?thesis
    by (simp add: ping_host_def example_host_facts example_type_facts)
qed

text \<open>
  C3 as stated fails: a Ping ahead of a valid Command packet ends the call with the ping
  status and no packet; the Command packet stays unread and only a second call returns it.
\<close>

theorem read_ping_surfaces_counterexample:
  "fst (serial_packet_read example_framing True True kPacketType_Command ping_host) = kStatus_Ping
   \<and> fst (snd (serial_packet_read example_framing True True kPacketType_Command ping_host)) = None
   \<and> rxBytes (snd (snd (snd
        (serial_packet_read example_framing True True kPacketType_Command ping_host))))
       = command_frame
   \<and> fst (serial_packet_read example_framing True True kPacketType_Command
        (snd (snd (snd (serial_packet_read example_framing True True kPacketType_Command ping_host)))))
       = kStatus_Success"
proof -
  have ws: "writeStatus ping_host = (\<lambda>_. kStatus_Success)"
    by (simp add: ping_host_def example_host_facts)
  have rx: "rxBytes ping_host
     = kFramingPacketStartByte example_framing # kFramingPacketType_Ping example_framing
       # command_frame"
    by (simp add: ping_host_def example_host_facts example_type_facts)
  from read_ping_lemma[OF ws rx, of kPacketType_Command] obtain h' where
    r: "serial_packet_read example_framing True True kPacketType_Command ping_host
        = (kStatus_Ping, None, Some 0, h')"
    and rest: "rxBytes h' = command_frame"
    by blast
  have ws': "writeStatus h' = (\<lambda>_. kStatus_Success)"
    using ws r by (rule read_success_ws)
  have rx': "rxBytes h' = data_frame example_framing 0xA4
                            (frame_crc example_framing 0xA4 [1, 2, 3, 4]) [1, 2, 3, 4] @ []"
    using rest by (simp add: command_frame_def frame_crc_command_1234)
  have "fst (serial_packet_read example_framing True True kPacketType_Command h') = kStatus_Success"
    using read_good_frame_lemma[OF ws' _ _ _ _ rx', of kPacketType_Command]
    by (auto simp: example_type_facts)
  with r rest show ?thesis
    by simp
qed


theorem read_command_then_write_acks_first_witness:
  "rxBytes command_host
     = data_frame example_framing (kFramingPacketType_Command example_framing)
         (frame_crc example_framing (kFramingPacketType_Command example_framing) [1, 2, 3, 4])
         [1, 2, 3, 4] @ [0x09]
   \<and> (\<exists>h1 more.
         serial_packet_read example_framing True True kPacketType_Command command_host
           = (kStatus_Success, Some ([1, 2, 3, 4] @ replicate 28 0), Some 4, h1)
         \<and> rxBytes h1 = [0x09]
         \<and> isAckNeeded (g_serialContext h1)
         \<and> txWrites (snd (serial_packet_write example_framing (Some [5, 6]) 2 kPacketType_Data h1))
             = [[0x5A, 0xA1], [0x5A, 0xA5, 0x02, 0x00, 0xFE, 0x8D, 0x05, 0x06]] @ more)"
proof -
  let ?c = example_framing
  have ws: "writeStatus command_host = (\<lambda>_. kStatus_Success)"
    by (simp add: command_host_def example_host_facts)
  have bc: "2 \<le> kOutgoingPacketBufferSize ?c"
    by (simp add: example_type_facts)
  have rx: "rxBytes command_host
     = data_frame ?c (kFramingPacketType_Command ?c)
         (frame_crc ?c (kFramingPacketType_Command ?c) [1, 2, 3, 4]) [1, 2, 3, 4] @ [0x09]"
    by (simp add: command_host_def example_host_facts example_type_facts command_frame_def
          frame_crc_command_1234)
  note th = read_command_then_write_acks_first[OF ws bc, of "[1, 2, 3, 4]" "[0x09]" "[5, 6]"
      kPacketType_Data]
  from th rx obtain h1 where
    r: "serial_packet_read ?c True True kPacketType_Command command_host
        = (kStatus_Success, Some (received ?c [1, 2, 3, 4]), Some (length [1, 2, 3, 4 :: byte]), h1)"
    and r1: "rxBytes h1 = [0x09]"
    and t1: "txWrites h1 = txWrites command_host @ deferred_sync ?c (g_serialContext command_host)"
    by (auto simp: example_type_facts)
  from th r obtain more where
    a: "isAckNeeded (g_serialContext h1)"
    and w: "txWrites (snd (serial_packet_write ?c (Some [5, 6]) 2 kPacketType_Data h1))
            = txWrites h1
              @ [[kFramingPacketStartByte ?c, kFramingPacketType_Ack ?c],
                 framing_packet_bytes
                   (outgoing_packet ?c [5, 6] 2 kPacketType_Data (framingPacket (g_serialContext h1)))
                   2]
              @ more"
    by blast
  have f: "framing_packet_bytes
             (outgoing_packet ?c [5, 6] 2 kPacketType_Data (framingPacket (g_serialContext h1))) 2
           = [0x5A, 0xA5, 0x02, 0x00, 0xFE, 0x8D, 0x05, 0x06]"
    by (simp add: outgoing_frame example_type_facts frame_crc_data_56 data_frame_data_56)
  have t0: "txWrites h1 = []"
    using t1 by (simp add: command_host_def example_host_facts)
  have rcv: "received ?c [1, 2, 3, 4] = [1, 2, 3, 4] @ replicate 28 0"
    by (simp add: received_def example_type_facts)
  show ?thesis
    using rx r r1 a w by (auto simp: f t0 rcv example_type_facts)
qed

end
